theory Spec2Isabelle
  imports Main "HOL-Library.Word"
begin

unbundle bit_operations_syntax

section \<open>SKINNY-128-128 encryption (FELICS), file SKINNY-128-128/encrypt.c\<close>

text \<open>
  The file holds one function, \<^verbatim>\<open>void Encrypt(uint8_t *block, uint8_t *roundKeys)\<close>,
  written three times as inline assembly (AVR, MSP430, ARM) and once as an empty body,
  selected by the preprocessor. Each assembly body is embedded instruction by
  instruction: an instruction is a function from the machine state to the next state
  (\<open>None\<close> where it reads or writes outside a buffer, which is undefined behaviour in
  the source), a code section is the list of its instructions in source order, and the
  round loop is a recursive function on the machine state.

  Conventions of the model.
  \<^item> The two buffers are two separate objects of the state (\<open>block_mem\<close> and \<open>rk_mem\<close>
    in the state of the ARM body); a pointer register holds the byte offset into the
    buffer it points to (both are 0 on entry). A read or a write outside the buffer is
    \<open>None\<close>.
  \<^item> The S-box table \<^verbatim>\<open>SBOX\<close> is declared in \<^verbatim>\<open>constants.h\<close> and its entries are not
    given in \<^verbatim>\<open>encrypt.c\<close>; it is a parameter \<open>sbox\<close> of every definition, a 256-entry
    table indexed by a byte. The AVR body addresses it as \<^verbatim>\<open>hi8(SBOX)\<close>:index, that is, it
    takes the table to start at a multiple of 256.
  \<^item> Each state records in a list the offsets of the round keys that have been read, in
    the order of the reads.
  \<^item> The pushes and pops of callee-saved registers around each body are left out: they
    restore the registers and touch only the stack.
\<close>

type_synonym byte = "8 word"

subsection \<open>Running straight-line code\<close>

primrec exec :: "('s \<Rightarrow> 's option) list \<Rightarrow> 's \<Rightarrow> 's option" where
  "exec [] s = Some s"
| "exec (i # is) s = (case i s of None \<Rightarrow> None | Some s' \<Rightarrow> exec is s')"

lemma exec_append:
  "exec (xs @ ys) s = (case exec xs s of None \<Rightarrow> None | Some s' \<Rightarrow> exec ys s')"
  by (induction xs arbitrary: s) (auto split: option.splits)

text \<open>An instruction keeps a component \<open>f\<close> of the state when it never changes it.\<close>

definition keeps :: "('s \<Rightarrow> 'a) \<Rightarrow> ('s \<Rightarrow> 's option) \<Rightarrow> bool" where
  "keeps f i \<longleftrightarrow> (\<forall>s s'. i s = Some s' \<longrightarrow> f s' = f s)"

lemma exec_keeps:
  "list_all (keeps f) is \<Longrightarrow> exec is s = Some s' \<Longrightarrow> f s' = f s"
proof (induction "is" arbitrary: s)
  case Nil
  then show ?case by simp
next
  case (Cons i "is")
  from Cons.prems(2) obtain t where t: "i s = Some t" "exec is t = Some s'"
    by (auto split: option.splits)
  from Cons.prems(1) t(1) have "f t = f s"
    by (simp add: keeps_def)
  moreover from Cons.prems(1) have "list_all (keeps f) is" by simp
  ultimately show ?case using Cons.IH t(2) by simp
qed

subsection \<open>Little-endian words\<close>

definition le32 :: "byte \<Rightarrow> byte \<Rightarrow> byte \<Rightarrow> byte \<Rightarrow> 32 word" where
  "le32 b0 b1 b2 b3 =
     ucast b0 OR push_bit 8 (ucast b1) OR push_bit 16 (ucast b2) OR push_bit 24 (ucast b3)"

definition byte_of :: "nat \<Rightarrow> 32 word \<Rightarrow> byte" where
  "byte_of k w = ucast (drop_bit (8 * k) w)"

subsection \<open>The ARM body (lines 397-501)\<close>

datatype arm_reg = R0 | R1 | R2 | R3 | R4 | R5 | R6 | R7 | R8 | R9 | R10

record arm_state =
  regs :: "arm_reg \<Rightarrow> 32 word"
  block_mem :: "byte list"
  rk_mem :: "byte list"
  rk_reads :: "nat list"

text \<open>
  \<open>regs s R0\<close> is the offset of \<^verbatim>\<open>r0\<close> into \<open>block_mem\<close>, \<open>regs s R1\<close> the offset of \<^verbatim>\<open>r1\<close>
  into \<open>rk_mem\<close>; \<^verbatim>\<open>r9\<close> points to the S-box table. \<open>rk_reads\<close> records, in order, the
  offsets of \<open>rk_mem\<close> that have been read.
\<close>

definition set_reg :: "arm_reg \<Rightarrow> 32 word \<Rightarrow> arm_state \<Rightarrow> arm_state" where
  "set_reg rd v s = s\<lparr>regs := (regs s)(rd := v)\<rparr>"

text \<open>\<^verbatim>\<open>mov rd, #imm\<close>\<close>
definition mov_imm :: "arm_reg \<Rightarrow> 32 word \<Rightarrow> arm_state \<Rightarrow> arm_state option" where
  "mov_imm rd imm s = Some (set_reg rd imm s)"

text \<open>\<^verbatim>\<open>mov rd, rm\<close>\<close>
definition mov_reg :: "arm_reg \<Rightarrow> arm_reg \<Rightarrow> arm_state \<Rightarrow> arm_state option" where
  "mov_reg rd rm s = Some (set_reg rd (regs s rm) s)"

text \<open>\<^verbatim>\<open>mov rd, rm, lsr #k\<close>\<close>
definition mov_lsr :: "arm_reg \<Rightarrow> arm_reg \<Rightarrow> nat \<Rightarrow> arm_state \<Rightarrow> arm_state option" where
  "mov_lsr rd rm k s = Some (set_reg rd (drop_bit k (regs s rm)) s)"

text \<open>\<^verbatim>\<open>and rd, rn, #imm\<close>\<close>
definition and_imm :: "arm_reg \<Rightarrow> arm_reg \<Rightarrow> 32 word \<Rightarrow> arm_state \<Rightarrow> arm_state option" where
  "and_imm rd rn imm s = Some (set_reg rd (regs s rn AND imm) s)"

text \<open>\<^verbatim>\<open>and rd, rn, rm, lsr #k\<close>\<close>
definition and_lsr :: "arm_reg \<Rightarrow> arm_reg \<Rightarrow> arm_reg \<Rightarrow> nat \<Rightarrow> arm_state \<Rightarrow> arm_state option" where
  "and_lsr rd rn rm k s = Some (set_reg rd (regs s rn AND drop_bit k (regs s rm)) s)"

text \<open>\<^verbatim>\<open>ldrb rd, [r9, rm]\<close>: the byte of the S-box table at index \<open>rm\<close>, zero-extended. An
  index beyond the 256 entries reads outside the table.\<close>
definition ldrb_SBOX :: "(byte \<Rightarrow> byte) \<Rightarrow> arm_reg \<Rightarrow> arm_reg \<Rightarrow> arm_state \<Rightarrow> arm_state option" where
  "ldrb_SBOX sbox rd rm s =
     (if unat (regs s rm) < 256 then Some (set_reg rd (ucast (sbox (ucast (regs s rm)))) s)
      else None)"

text \<open>\<^verbatim>\<open>bfi rd, rn, #lsb, #width\<close>: bits \<open>lsb ..< lsb + width\<close> of \<open>rd\<close> are replaced by the low
  \<open>width\<close> bits of \<open>rn\<close>.\<close>
definition bfi_val :: "32 word \<Rightarrow> 32 word \<Rightarrow> nat \<Rightarrow> nat \<Rightarrow> 32 word" where
  "bfi_val d n lsb w = (d AND NOT (push_bit lsb (mask w))) OR push_bit lsb (n AND mask w)"

definition bfi :: "arm_reg \<Rightarrow> arm_reg \<Rightarrow> nat \<Rightarrow> nat \<Rightarrow> arm_state \<Rightarrow> arm_state option" where
  "bfi rd rn lsb w s = Some (set_reg rd (bfi_val (regs s rd) (regs s rn) lsb w) s)"

text \<open>\<^verbatim>\<open>ldrd rt, rt2, [r1, #0]\<close>: two little-endian words from the round keys at \<^verbatim>\<open>r1\<close>.\<close>
definition ldrd_rk :: "arm_reg \<Rightarrow> arm_reg \<Rightarrow> arm_state \<Rightarrow> arm_state option" where
  "ldrd_rk rt rt2 s =
     (let a = unat (regs s R1); m = rk_mem s in
      if a + 8 \<le> length m
      then Some (s\<lparr>regs := (regs s)
                     (rt := le32 (m ! a) (m ! (a + 1)) (m ! (a + 2)) (m ! (a + 3)),
                      rt2 := le32 (m ! (a + 4)) (m ! (a + 5)) (m ! (a + 6)) (m ! (a + 7))),
                   rk_reads := rk_reads s @ [a ..< a + 8]\<rparr>)
      else None)"

text \<open>\<^verbatim>\<open>adds rd, rn, #imm\<close> and \<^verbatim>\<open>subs rd, rn, #imm\<close> (the flags are read off the result by
  the branch that follows)\<close>
definition adds_imm :: "arm_reg \<Rightarrow> arm_reg \<Rightarrow> 32 word \<Rightarrow> arm_state \<Rightarrow> arm_state option" where
  "adds_imm rd rn imm s = Some (set_reg rd (regs s rn + imm) s)"

definition subs_imm :: "arm_reg \<Rightarrow> arm_reg \<Rightarrow> 32 word \<Rightarrow> arm_state \<Rightarrow> arm_state option" where
  "subs_imm rd rn imm s = Some (set_reg rd (regs s rn - imm) s)"

text \<open>\<^verbatim>\<open>eors rd, rn, rm\<close> and \<^verbatim>\<open>eors rd, rn, #imm\<close>\<close>
definition eors :: "arm_reg \<Rightarrow> arm_reg \<Rightarrow> arm_reg \<Rightarrow> arm_state \<Rightarrow> arm_state option" where
  "eors rd rn rm s = Some (set_reg rd (regs s rn XOR regs s rm) s)"

definition eors_imm :: "arm_reg \<Rightarrow> arm_reg \<Rightarrow> 32 word \<Rightarrow> arm_state \<Rightarrow> arm_state option" where
  "eors_imm rd rn imm s = Some (set_reg rd (regs s rn XOR imm) s)"

text \<open>\<^verbatim>\<open>rors rd, rm, #k\<close>\<close>
definition rors :: "arm_reg \<Rightarrow> arm_reg \<Rightarrow> nat \<Rightarrow> arm_state \<Rightarrow> arm_state option" where
  "rors rd rm k s = Some (set_reg rd (word_rotr k (regs s rm)) s)"

text \<open>\<^verbatim>\<open>ldmia r0, {r2-r5}\<close> and \<^verbatim>\<open>stmia r0, {r2-r5}\<close>: four little-endian words at \<^verbatim>\<open>r0\<close>.\<close>
definition ldmia_block :: "arm_state \<Rightarrow> arm_state option" where
  "ldmia_block s =
     (let a = unat (regs s R0); m = block_mem s in
      if a + 16 \<le> length m
      then Some (s\<lparr>regs := (regs s)
                     (R2 := le32 (m ! a) (m ! (a + 1)) (m ! (a + 2)) (m ! (a + 3)),
                      R3 := le32 (m ! (a + 4)) (m ! (a + 5)) (m ! (a + 6)) (m ! (a + 7)),
                      R4 := le32 (m ! (a + 8)) (m ! (a + 9)) (m ! (a + 10)) (m ! (a + 11)),
                      R5 := le32 (m ! (a + 12)) (m ! (a + 13)) (m ! (a + 14)) (m ! (a + 15)))\<rparr>)
      else None)"

definition word_bytes :: "32 word \<Rightarrow> byte list" where
  "word_bytes w = [byte_of 0 w, byte_of 1 w, byte_of 2 w, byte_of 3 w]"

definition stmia_block :: "arm_state \<Rightarrow> arm_state option" where
  "stmia_block s =
     (let a = unat (regs s R0); m = block_mem s in
      if a + 16 \<le> length m
      then Some (s\<lparr>block_mem := take a m @ word_bytes (regs s R2) @ word_bytes (regs s R3)
                     @ word_bytes (regs s R4) @ word_bytes (regs s R5) @ drop (a + 16) m\<rparr>)
      else None)"

text \<open>SubCells, lines 413-469.\<close>
definition SubCells_ARM :: "(byte \<Rightarrow> byte) \<Rightarrow> (arm_state \<Rightarrow> arm_state option) list" where
  "SubCells_ARM sbox =
    [and_imm R6 R2 0xff,    ldrb_SBOX sbox R6 R6, bfi R2 R6 0 8,
     and_lsr R6 R10 R2 8,   ldrb_SBOX sbox R6 R6, bfi R2 R6 8 8,
     and_lsr R6 R10 R2 16,  ldrb_SBOX sbox R6 R6, bfi R2 R6 16 8,
     mov_lsr R6 R2 24,      ldrb_SBOX sbox R6 R6, bfi R2 R6 24 8,
     and_imm R6 R3 0xff,    ldrb_SBOX sbox R6 R6, bfi R3 R6 0 8,
     and_lsr R6 R10 R3 8,   ldrb_SBOX sbox R6 R6, bfi R3 R6 8 8,
     and_lsr R6 R10 R3 16,  ldrb_SBOX sbox R6 R6, bfi R3 R6 16 8,
     mov_lsr R6 R3 24,      ldrb_SBOX sbox R6 R6, bfi R3 R6 24 8,
     and_imm R6 R4 0xff,    ldrb_SBOX sbox R6 R6, bfi R4 R6 0 8,
     and_lsr R6 R10 R4 8,   ldrb_SBOX sbox R6 R6, bfi R4 R6 8 8,
     and_lsr R6 R10 R4 16,  ldrb_SBOX sbox R6 R6, bfi R4 R6 16 8,
     mov_lsr R6 R4 24,      ldrb_SBOX sbox R6 R6, bfi R4 R6 24 8,
     and_imm R6 R5 0xff,    ldrb_SBOX sbox R6 R6, bfi R5 R6 0 8,
     and_lsr R6 R10 R5 8,   ldrb_SBOX sbox R6 R6, bfi R5 R6 8 8,
     and_lsr R6 R10 R5 16,  ldrb_SBOX sbox R6 R6, bfi R5 R6 16 8,
     mov_lsr R6 R5 24,      ldrb_SBOX sbox R6 R6, bfi R5 R6 24 8]"

text \<open>AddConstants and AddRoundTweakey, lines 470-475.\<close>
definition AddRoundTweakey_ARM :: "(arm_state \<Rightarrow> arm_state option) list" where
  "AddRoundTweakey_ARM =
    [ldrd_rk R6 R7,
     adds_imm R1 R1 8,
     eors R2 R2 R6,
     eors R3 R3 R7,
     eors_imm R4 R4 0x02]"

text \<open>ShiftRows, lines 476-482.\<close>
definition ShiftRows_ARM :: "(arm_state \<Rightarrow> arm_state option) list" where
  "ShiftRows_ARM =
    [rors R3 R3 24,
     rors R4 R4 16,
     rors R5 R5 8]"

text \<open>MixColumns, lines 483-494.\<close>
definition MixColumns_ARM :: "(arm_state \<Rightarrow> arm_state option) list" where
  "MixColumns_ARM =
    [eors R3 R3 R4,
     eors R4 R4 R2,
     eors R5 R5 R4,
     mov_reg R6 R2,
     mov_reg R2 R5,
     mov_reg R5 R4,
     mov_reg R4 R3,
     mov_reg R3 R6]"

text \<open>The body of \<^verbatim>\<open>enc_loop\<close> up to the decrement of the round counter.\<close>
definition round_ARM :: "(byte \<Rightarrow> byte) \<Rightarrow> (arm_state \<Rightarrow> arm_state option) list" where
  "round_ARM sbox = SubCells_ARM sbox @ AddRoundTweakey_ARM @ ShiftRows_ARM @ MixColumns_ARM"

text \<open>
  The round loop, lines 412-496: the body, then \<^verbatim>\<open>subs r8, r8, #1\<close> and \<^verbatim>\<open>bne enc_loop\<close>,
  which branches back while the result of the subtraction is not zero.
\<close>

definition iteration_ARM :: "(byte \<Rightarrow> byte) \<Rightarrow> arm_state \<Rightarrow> arm_state option" where
  "iteration_ARM sbox = exec (round_ARM sbox @ [subs_imm R8 R8 1])"

lemmas arm_instr_defs = set_reg_def mov_imm_def mov_reg_def mov_lsr_def and_imm_def and_lsr_def
  ldrb_SBOX_def bfi_def ldrd_rk_def adds_imm_def subs_imm_def eors_def eors_imm_def rors_def

lemma round_ARM_keeps_R8: "list_all (keeps (\<lambda>s. regs s R8)) (round_ARM sbox)"
  by (simp add: round_ARM_def SubCells_ARM_def AddRoundTweakey_ARM_def ShiftRows_ARM_def
      MixColumns_ARM_def keeps_def arm_instr_defs Let_def)

lemma iteration_ARM_R8:
  assumes "iteration_ARM sbox s = Some s'"
  shows "regs s' R8 = regs s R8 - 1"
proof -
  from assms obtain t where t: "exec (round_ARM sbox) s = Some t" "subs_imm R8 R8 1 t = Some s'"
    by (auto simp: iteration_ARM_def exec_append split: option.splits)
  from exec_keeps[OF round_ARM_keeps_R8 t(1)] t(2) show ?thesis
    by (auto simp: subs_imm_def set_reg_def)
qed

function enc_loop_ARM :: "(byte \<Rightarrow> byte) \<Rightarrow> arm_state \<Rightarrow> arm_state option" where
  "enc_loop_ARM sbox s =
     (case iteration_ARM sbox s of
        None \<Rightarrow> None
      | Some s' \<Rightarrow> if regs s' R8 \<noteq> 0 then enc_loop_ARM sbox s' else Some s')"
  by pat_completeness auto
termination
proof (relation "measure (\<lambda>(sbox, s). unat (regs s R8 - 1))")
  show "wf (measure (\<lambda>(sbox, s). unat (regs s R8 - 1)))" by simp
next
  fix sbox :: "byte \<Rightarrow> byte" and s s' :: arm_state
  assume it: "iteration_ARM sbox s = Some s'" and nz: "regs s' R8 \<noteq> 0"
  have eq: "regs s' R8 = regs s R8 - 1" by (rule iteration_ARM_R8[OF it])
  from nz have "unat (regs s' R8 - 1) < unat (regs s' R8)"
    by (simp add: unat_minus_one unat_gt_0 word_neq_0_conv)
  then show "((sbox, s'), (sbox, s)) \<in> measure (\<lambda>(sbox, s). unat (regs s R8 - 1))"
    by (simp add: eq)
qed

text \<open>
  Lines 408-411: the round counter, the constant \<^verbatim>\<open>0xff\<close> and the load of the block
  (\<^verbatim>\<open>ldr r9, =SBOX\<close> sets the base of the table, which is the parameter \<open>sbox\<close> here).
\<close>

definition load_ARM :: "(arm_state \<Rightarrow> arm_state option) list" where
  "load_ARM =
    [mov_imm R8 40,
     mov_imm R10 0xff,
     ldmia_block]"

text \<open>The whole body: the load, the loop, and the store of the block (line 497).\<close>

definition Encrypt_ARM :: "(byte \<Rightarrow> byte) \<Rightarrow> arm_state \<Rightarrow> arm_state option" where
  "Encrypt_ARM sbox s =
     (case exec load_ARM s of
        None \<Rightarrow> None
      | Some s1 \<Rightarrow>
          (case enc_loop_ARM sbox s1 of
             None \<Rightarrow> None
           | Some s2 \<Rightarrow> stmia_block s2))"

text \<open>The state in which the caller enters the body: \<^verbatim>\<open>r0\<close> points to the first byte of
  \<open>block\<close>, \<^verbatim>\<open>r1\<close> to the first byte of \<open>roundKeys\<close>, the other registers hold anything.\<close>

definition arm_entry :: "(arm_reg \<Rightarrow> 32 word) \<Rightarrow> byte list \<Rightarrow> byte list \<Rightarrow> arm_state" where
  "arm_entry rs block roundKeys =
     \<lparr>regs = rs(R0 := 0, R1 := 0), block_mem = block, rk_mem = roundKeys, rk_reads = []\<rparr>"

text \<open>The 16 cells of the cipher state held in \<^verbatim>\<open>r2\<close>-\<^verbatim>\<open>r5\<close>, in the order \<open>s0 .. s15\<close>
  (comment at lines 414-417: \<^verbatim>\<open>r2 (s3 s2 s1 s0)\<close>, and so on).\<close>

definition cells_ARM :: "arm_state \<Rightarrow> byte list" where
  "cells_ARM s = word_bytes (regs s R2) @ word_bytes (regs s R3)
     @ word_bytes (regs s R4) @ word_bytes (regs s R5)"


subsection \<open>The round on the 16 cells\<close>

text \<open>
  The cipher state is the list of its 16 cells \<open>s0 .. s15\<close>, row by row (row 0 is
  \<open>s0 .. s3\<close>, row 1 is \<open>s4 .. s7\<close>, and so on). The four steps below are the four
  commented sections of the ARM loop body, read on the cells; the facts proved further
  down relate every section of every body to them.
\<close>

definition SubCells :: "(byte \<Rightarrow> byte) \<Rightarrow> byte list \<Rightarrow> byte list" where
  "SubCells sbox st = map sbox st"

text \<open>The substitution of one cell.\<close>
definition sub_cell :: "(byte \<Rightarrow> byte) \<Rightarrow> nat \<Rightarrow> byte list \<Rightarrow> byte list" where
  "sub_cell sbox i st = st[i := sbox (st ! i)]"

text \<open>\<open>k\<close> is the 8-byte chunk of round keys of the round.\<close>
definition AddRoundTweakey :: "byte list \<Rightarrow> byte list \<Rightarrow> byte list" where
  "AddRoundTweakey k st =
     [st ! 0 XOR k ! 0, st ! 1 XOR k ! 1, st ! 2 XOR k ! 2, st ! 3 XOR k ! 3,
      st ! 4 XOR k ! 4, st ! 5 XOR k ! 5, st ! 6 XOR k ! 6, st ! 7 XOR k ! 7,
      st ! 8 XOR 0x02, st ! 9, st ! 10, st ! 11,
      st ! 12, st ! 13, st ! 14, st ! 15]"

definition ShiftRows :: "byte list \<Rightarrow> byte list" where
  "ShiftRows st =
     [st ! 0, st ! 1, st ! 2, st ! 3,
      st ! 7, st ! 4, st ! 5, st ! 6,
      st ! 10, st ! 11, st ! 8, st ! 9,
      st ! 13, st ! 14, st ! 15, st ! 12]"

text \<open>The three exclusive-ors of each column, as the MixColumns section of every body has
  them, with the four rows left where they are.\<close>
definition MixColumns_xors :: "byte list \<Rightarrow> byte list" where
  "MixColumns_xors st =
     [st ! 0, st ! 1, st ! 2, st ! 3,
      st ! 4 XOR st ! 8, st ! 5 XOR st ! 9, st ! 6 XOR st ! 10, st ! 7 XOR st ! 11,
      st ! 8 XOR st ! 0, st ! 9 XOR st ! 1, st ! 10 XOR st ! 2, st ! 11 XOR st ! 3,
      st ! 12 XOR (st ! 8 XOR st ! 0), st ! 13 XOR (st ! 9 XOR st ! 1),
      st ! 14 XOR (st ! 10 XOR st ! 2), st ! 15 XOR (st ! 11 XOR st ! 3)]"

text \<open>The rows move down by one, the last row becomes the first (lines 490-494 of the ARM
  body; the AVR and MSP bodies rename their registers instead).\<close>
definition rotate_rows :: "byte list \<Rightarrow> byte list" where
  "rotate_rows st =
     [st ! 12, st ! 13, st ! 14, st ! 15,
      st ! 0, st ! 1, st ! 2, st ! 3,
      st ! 4, st ! 5, st ! 6, st ! 7,
      st ! 8, st ! 9, st ! 10, st ! 11]"

definition MixColumns :: "byte list \<Rightarrow> byte list" where
  "MixColumns st = rotate_rows (MixColumns_xors st)"

definition skinny_round :: "(byte \<Rightarrow> byte) \<Rightarrow> byte list \<Rightarrow> byte list \<Rightarrow> byte list" where
  "skinny_round sbox k st = MixColumns (ShiftRows (AddRoundTweakey k (SubCells sbox st)))"

text \<open>\<open>n\<close> rounds, each taking the next 8 bytes of the round keys \<open>ks\<close>.\<close>
fun skinny_rounds :: "(byte \<Rightarrow> byte) \<Rightarrow> nat \<Rightarrow> byte list \<Rightarrow> byte list \<Rightarrow> byte list" where
  "skinny_rounds sbox 0 ks st = st"
| "skinny_rounds sbox (Suc n) ks st =
     skinny_rounds sbox n (drop 8 ks) (skinny_round sbox (take 8 ks) st)"

definition skinny_encrypt :: "(byte \<Rightarrow> byte) \<Rightarrow> byte list \<Rightarrow> byte list \<Rightarrow> byte list" where
  "skinny_encrypt sbox block roundKeys = skinny_rounds sbox 40 roundKeys block"

text \<open>Running a step \<open>n\<close> times, stopping at the first failure.\<close>
primrec repeat_opt :: "nat \<Rightarrow> ('s \<Rightarrow> 's option) \<Rightarrow> 's \<Rightarrow> 's option" where
  "repeat_opt 0 f s = Some s"
| "repeat_opt (Suc n) f s = (case f s of None \<Rightarrow> None | Some s' \<Rightarrow> repeat_opt n f s')"


subsection \<open>The AVR body (lines 41-266)\<close>

text \<open>
  The registers \<^verbatim>\<open>r0\<close>-\<^verbatim>\<open>r31\<close> hold a byte each and are named by their number. The pairs
  \<^verbatim>\<open>r27:r26\<close> (X) and \<^verbatim>\<open>r31:r30\<close> (Z) are only used as pointers and are kept as 16-bit
  values: \<open>ptrX\<close> is the offset of X into \<open>avr_block\<close>, \<open>ptrZ\<close> the offset of Z into
  \<open>avr_rk\<close>. The pair \<^verbatim>\<open>r29:r28\<close> (Y) has \<^verbatim>\<open>hi8(SBOX)\<close> in \<^verbatim>\<open>r29\<close> throughout, so that
  \<^verbatim>\<open>ld rd, y\<close> reads the entry of the S-box table whose index is in \<^verbatim>\<open>r28\<close>.
  The round keys are read with \<^verbatim>\<open>ld\<close> (from RAM); under \<^verbatim>\<open>SCENARIO_2\<close> the same
  instructions are \<^verbatim>\<open>lpm\<close> (from flash), with the same registers and the same order.
\<close>

record avr_state =
  reg8 :: "nat \<Rightarrow> byte"
  ptrX :: "16 word"
  ptrZ :: "16 word"
  avr_block :: "byte list"
  avr_rk :: "byte list"
  avr_rk_reads :: "nat list"

definition set_reg8 :: "nat \<Rightarrow> byte \<Rightarrow> avr_state \<Rightarrow> avr_state" where
  "set_reg8 rd v s = s\<lparr>reg8 := (reg8 s)(rd := v)\<rparr>"

text \<open>\<^verbatim>\<open>ld rd, x+\<close> and \<^verbatim>\<open>ld rd, x\<close>\<close>
definition ld_Xinc :: "nat \<Rightarrow> avr_state \<Rightarrow> avr_state option" where
  "ld_Xinc rd s =
     (if unat (ptrX s) < length (avr_block s)
      then Some (s\<lparr>reg8 := (reg8 s)(rd := avr_block s ! unat (ptrX s)), ptrX := ptrX s + 1\<rparr>)
      else None)"

definition ld_X :: "nat \<Rightarrow> avr_state \<Rightarrow> avr_state option" where
  "ld_X rd s =
     (if unat (ptrX s) < length (avr_block s)
      then Some (s\<lparr>reg8 := (reg8 s)(rd := avr_block s ! unat (ptrX s))\<rparr>)
      else None)"

text \<open>\<^verbatim>\<open>st x, rr\<close> and \<^verbatim>\<open>st -x, rr\<close> (X is decremented first)\<close>
definition st_X :: "nat \<Rightarrow> avr_state \<Rightarrow> avr_state option" where
  "st_X rr s =
     (if unat (ptrX s) < length (avr_block s)
      then Some (s\<lparr>avr_block := (avr_block s)[unat (ptrX s) := reg8 s rr]\<rparr>)
      else None)"

definition st_decX :: "nat \<Rightarrow> avr_state \<Rightarrow> avr_state option" where
  "st_decX rr s =
     (if unat (ptrX s - 1) < length (avr_block s)
      then Some (s\<lparr>avr_block := (avr_block s)[unat (ptrX s - 1) := reg8 s rr],
                   ptrX := ptrX s - 1\<rparr>)
      else None)"

text \<open>\<^verbatim>\<open>ldi rd, imm\<close>, \<^verbatim>\<open>mov rd, rr\<close>, \<^verbatim>\<open>movw rd, rr\<close> (the pair \<open>rr+1:rr\<close> to \<open>rd+1:rd\<close>),
  \<^verbatim>\<open>eor rd, rr\<close>, \<^verbatim>\<open>dec rd\<close>\<close>
definition ldi :: "nat \<Rightarrow> byte \<Rightarrow> avr_state \<Rightarrow> avr_state option" where
  "ldi rd imm s = Some (set_reg8 rd imm s)"

definition mov :: "nat \<Rightarrow> nat \<Rightarrow> avr_state \<Rightarrow> avr_state option" where
  "mov rd rr s = Some (set_reg8 rd (reg8 s rr) s)"

definition movw :: "nat \<Rightarrow> nat \<Rightarrow> avr_state \<Rightarrow> avr_state option" where
  "movw rd rr s = Some (s\<lparr>reg8 := (reg8 s)(rd := reg8 s rr, Suc rd := reg8 s (Suc rr))\<rparr>)"

definition eor :: "nat \<Rightarrow> nat \<Rightarrow> avr_state \<Rightarrow> avr_state option" where
  "eor rd rr s = Some (set_reg8 rd (reg8 s rd XOR reg8 s rr) s)"

definition dec :: "nat \<Rightarrow> avr_state \<Rightarrow> avr_state option" where
  "dec rd s = Some (set_reg8 rd (reg8 s rd - 1) s)"

text \<open>\<^verbatim>\<open>ld rd, y\<close>: the S-box entry at the index in \<^verbatim>\<open>r28\<close>\<close>
definition ld_Y :: "(byte \<Rightarrow> byte) \<Rightarrow> nat \<Rightarrow> avr_state \<Rightarrow> avr_state option" where
  "ld_Y sbox rd s = Some (set_reg8 rd (sbox (reg8 s 28)) s)"

text \<open>\<^verbatim>\<open>ld rd, z+\<close>: the next byte of the round keys\<close>
definition ld_Zinc :: "nat \<Rightarrow> avr_state \<Rightarrow> avr_state option" where
  "ld_Zinc rd s =
     (if unat (ptrZ s) < length (avr_rk s)
      then Some (s\<lparr>reg8 := (reg8 s)(rd := avr_rk s ! unat (ptrZ s)), ptrZ := ptrZ s + 1,
                   avr_rk_reads := avr_rk_reads s @ [unat (ptrZ s)]\<rparr>)
      else None)"

text \<open>Load of the plain text, lines 84-106, and the constants of lines 107-111
  (\<^verbatim>\<open>ldi r29, hi8(SBOX)\<close> sets the base of the table, the parameter \<open>sbox\<close> here).\<close>
definition load_AVR :: "(avr_state \<Rightarrow> avr_state option) list" where
  "load_AVR =
    [ld_Xinc 21, ld_Xinc 22, ld_Xinc 23, ld_Xinc 20,
     ld_Xinc 8,  ld_Xinc 9,  ld_Xinc 10, ld_Xinc 11,
     ld_Xinc 15, ld_Xinc 12, ld_Xinc 13, ld_Xinc 14,
     ld_Xinc 18, ld_Xinc 19, ld_Xinc 16, ld_X 17,
     ldi 24 40,
     ldi 25 0x02]"

text \<open>"SubCells with ShiftRows", lines 114-157.\<close>
definition SubCells_AVR :: "(byte \<Rightarrow> byte) \<Rightarrow> (avr_state \<Rightarrow> avr_state option) list" where
  "SubCells_AVR sbox =
    [movw 6 8,
     mov 28 21, ld_Y sbox 8,
     mov 28 19, ld_Y sbox 21,
     mov 28 14, ld_Y sbox 19,
     mov 28 10, ld_Y sbox 14,
     mov 28 23, ld_Y sbox 10,
     mov 28 17, ld_Y sbox 23,
     mov 28 12, ld_Y sbox 17,
     mov 28 6,  ld_Y sbox 12,
     mov 28 22, ld_Y sbox 9,
     mov 28 16, ld_Y sbox 22,
     mov 28 15, ld_Y sbox 16,
     mov 28 11, ld_Y sbox 15,
     mov 28 20, ld_Y sbox 11,
     mov 28 18, ld_Y sbox 20,
     mov 28 13, ld_Y sbox 18,
     mov 28 7,  ld_Y sbox 13]"

text \<open>AddConstants and AddRoundTweakey, lines 158-201.\<close>
definition AddRoundTweakey_AVR :: "(avr_state \<Rightarrow> avr_state option) list" where
  "AddRoundTweakey_AVR =
    [ld_Zinc 6, eor 8 6,
     ld_Zinc 6, eor 9 6,
     ld_Zinc 6, eor 10 6,
     ld_Zinc 6, eor 11 6,
     ld_Zinc 6, eor 12 6,
     ld_Zinc 6, eor 13 6,
     ld_Zinc 6, eor 14 6,
     ld_Zinc 6, eor 15 6,
     eor 16 25]"

text \<open>MixColumns, lines 202-229.\<close>
definition MixColumns_AVR :: "(avr_state \<Rightarrow> avr_state option) list" where
  "MixColumns_AVR =
    [eor 15 18, eor 18 8,  eor 21 18,
     eor 12 19, eor 19 9,  eor 22 19,
     eor 13 16, eor 16 10, eor 23 16,
     eor 14 17, eor 17 11, eor 20 17]"

definition round_AVR :: "(byte \<Rightarrow> byte) \<Rightarrow> (avr_state \<Rightarrow> avr_state option) list" where
  "round_AVR sbox = SubCells_AVR sbox @ AddRoundTweakey_AVR @ MixColumns_AVR"

text \<open>One pass through \<^verbatim>\<open>enc_loop\<close>: the body and \<^verbatim>\<open>dec r24\<close>; \<^verbatim>\<open>brne enc_loop\<close> branches back
  while \<^verbatim>\<open>r24\<close> is not zero.\<close>
definition iteration_AVR :: "(byte \<Rightarrow> byte) \<Rightarrow> avr_state \<Rightarrow> avr_state option" where
  "iteration_AVR sbox = exec (round_AVR sbox @ [dec 24])"

text \<open>Store of the cipher text, lines 232-248.\<close>
definition store_AVR :: "(avr_state \<Rightarrow> avr_state option) list" where
  "store_AVR =
    [st_X 17,    st_decX 16, st_decX 19, st_decX 18,
     st_decX 14, st_decX 13, st_decX 12, st_decX 15,
     st_decX 11, st_decX 10, st_decX 9,  st_decX 8,
     st_decX 20, st_decX 23, st_decX 22, st_decX 21]"

lemmas avr_instr_defs = set_reg8_def ld_Xinc_def ld_X_def st_X_def st_decX_def ldi_def mov_def
  movw_def eor_def dec_def ld_Y_def ld_Zinc_def

lemma round_AVR_keeps_r24: "list_all (keeps (\<lambda>s. reg8 s 24)) (round_AVR sbox)"
  by (simp add: round_AVR_def SubCells_AVR_def AddRoundTweakey_AVR_def MixColumns_AVR_def
      keeps_def avr_instr_defs)

lemma iteration_AVR_r24:
  assumes "iteration_AVR sbox s = Some s'"
  shows "reg8 s' 24 = reg8 s 24 - 1"
proof -
  from assms obtain t where t: "exec (round_AVR sbox) s = Some t" "dec 24 t = Some s'"
    by (auto simp: iteration_AVR_def exec_append split: option.splits)
  from exec_keeps[OF round_AVR_keeps_r24 t(1)] t(2) show ?thesis
    by (auto simp: dec_def set_reg8_def)
qed

function enc_loop_AVR :: "(byte \<Rightarrow> byte) \<Rightarrow> avr_state \<Rightarrow> avr_state option" where
  "enc_loop_AVR sbox s =
     (case iteration_AVR sbox s of
        None \<Rightarrow> None
      | Some s' \<Rightarrow> if reg8 s' 24 \<noteq> 0 then enc_loop_AVR sbox s' else Some s')"
  by pat_completeness auto
termination
proof (relation "measure (\<lambda>(sbox, s). unat (reg8 s 24 - 1))")
  show "wf (measure (\<lambda>(sbox, s). unat (reg8 s 24 - 1)))" by simp
next
  fix sbox :: "byte \<Rightarrow> byte" and s s' :: avr_state
  assume it: "iteration_AVR sbox s = Some s'" and nz: "reg8 s' 24 \<noteq> 0"
  have eq: "reg8 s' 24 = reg8 s 24 - 1" by (rule iteration_AVR_r24[OF it])
  from nz have "unat (reg8 s' 24 - 1) < unat (reg8 s' 24)"
    by (simp add: unat_minus_one unat_gt_0 word_neq_0_conv)
  then show "((sbox, s'), (sbox, s)) \<in> measure (\<lambda>(sbox, s). unat (reg8 s 24 - 1))"
    by (simp add: eq)
qed

definition Encrypt_AVR :: "(byte \<Rightarrow> byte) \<Rightarrow> avr_state \<Rightarrow> avr_state option" where
  "Encrypt_AVR sbox s =
     (case exec load_AVR s of
        None \<Rightarrow> None
      | Some s1 \<Rightarrow>
          (case enc_loop_AVR sbox s1 of
             None \<Rightarrow> None
           | Some s2 \<Rightarrow> exec store_AVR s2))"

text \<open>Entry: X points to the first byte of \<open>block\<close>, Z to the first byte of \<open>roundKeys\<close>.\<close>
definition avr_entry :: "(nat \<Rightarrow> byte) \<Rightarrow> byte list \<Rightarrow> byte list \<Rightarrow> avr_state" where
  "avr_entry rs block roundKeys =
     \<lparr>reg8 = rs, ptrX = 0, ptrZ = 0, avr_block = block, avr_rk = roundKeys, avr_rk_reads = []\<rparr>"

text \<open>
  The cells \<open>s0 .. s15\<close> in the registers. At the top of the loop, and when the block is
  loaded and stored, the registers are in the order of the comment at lines 116-119; after
  the SubCells section they are in the order of the comment at lines 161-164.
\<close>

definition cells_top_AVR :: "avr_state \<Rightarrow> byte list" where
  "cells_top_AVR s = map (reg8 s) [21, 22, 23, 20, 8, 9, 10, 11, 15, 12, 13, 14, 18, 19, 16, 17]"

definition cells_mid_AVR :: "avr_state \<Rightarrow> byte list" where
  "cells_mid_AVR s = map (reg8 s) [8, 9, 10, 11, 12, 13, 14, 15, 16, 17, 18, 19, 20, 21, 22, 23]"

subsection \<open>The MSP body (lines 269-394)\<close>

text \<open>
  The registers \<^verbatim>\<open>r4\<close>-\<^verbatim>\<open>r15\<close> hold 16 bits each and are named by their number. \<^verbatim>\<open>r15\<close> holds
  the offset into \<open>msp_block\<close>, \<^verbatim>\<open>r14\<close> the offset into \<open>msp_rk\<close>. A byte instruction
  (\<^verbatim>\<open>.b\<close>) with a register as destination clears the high byte of the register.
\<close>

record msp_state =
  reg16 :: "nat \<Rightarrow> 16 word"
  msp_block :: "byte list"
  msp_rk :: "byte list"
  msp_rk_reads :: "nat list"

definition le16 :: "byte \<Rightarrow> byte \<Rightarrow> 16 word" where
  "le16 b0 b1 = ucast b0 OR push_bit 8 (ucast b1)"

definition lo8 :: "16 word \<Rightarrow> byte" where
  "lo8 w = ucast w"

definition hi8 :: "16 word \<Rightarrow> byte" where
  "hi8 w = ucast (drop_bit 8 w)"

definition set_reg16 :: "nat \<Rightarrow> 16 word \<Rightarrow> msp_state \<Rightarrow> msp_state" where
  "set_reg16 rd v s = s\<lparr>reg16 := (reg16 s)(rd := v)\<rparr>"

text \<open>\<^verbatim>\<open>mov #imm, rd\<close>\<close>
definition mov_imm16 :: "16 word \<Rightarrow> nat \<Rightarrow> msp_state \<Rightarrow> msp_state option" where
  "mov_imm16 imm rd s = Some (set_reg16 rd imm s)"

text \<open>\<^verbatim>\<open>mov k(r15), rd\<close>: the little-endian word at offset \<open>k\<close> of the block\<close>
definition mov_ld :: "nat \<Rightarrow> nat \<Rightarrow> msp_state \<Rightarrow> msp_state option" where
  "mov_ld k rd s =
     (let a = unat (reg16 s 15) + k; m = msp_block s in
      if a + 2 \<le> length m then Some (set_reg16 rd (le16 (m ! a) (m ! (a + 1))) s) else None)"

text \<open>\<^verbatim>\<open>mov rs, k(r15)\<close>: the word \<open>rs\<close> to offset \<open>k\<close> of the block, low byte first\<close>
definition mov_st :: "nat \<Rightarrow> nat \<Rightarrow> msp_state \<Rightarrow> msp_state option" where
  "mov_st rs k s =
     (let a = unat (reg16 s 15) + k; m = msp_block s in
      if a + 2 \<le> length m
      then Some (s\<lparr>msp_block := m[a := lo8 (reg16 s rs), a + 1 := hi8 (reg16 s rs)]\<rparr>)
      else None)"

text \<open>\<^verbatim>\<open>mov.b rs, rd\<close>\<close>
definition movb :: "nat \<Rightarrow> nat \<Rightarrow> msp_state \<Rightarrow> msp_state option" where
  "movb rs rd s = Some (set_reg16 rd (ucast (lo8 (reg16 s rs))) s)"

text \<open>\<^verbatim>\<open>mov.b SBOX(rs), rd\<close>: the entry of the table at index \<open>rs\<close>; an index beyond the
  256 entries reads outside the table\<close>
definition movb_SBOX :: "(byte \<Rightarrow> byte) \<Rightarrow> nat \<Rightarrow> nat \<Rightarrow> msp_state \<Rightarrow> msp_state option" where
  "movb_SBOX sbox rs rd s =
     (if unat (reg16 s rs) < 256 then Some (set_reg16 rd (ucast (sbox (ucast (reg16 s rs)))) s)
      else None)"

text \<open>\<^verbatim>\<open>mov.b SBOX(rs), k(r15)\<close>: the entry of the table to the byte at offset \<open>k\<close> of the
  block\<close>
definition movb_SBOX_st :: "(byte \<Rightarrow> byte) \<Rightarrow> nat \<Rightarrow> nat \<Rightarrow> msp_state \<Rightarrow> msp_state option" where
  "movb_SBOX_st sbox rs k s =
     (let a = unat (reg16 s 15) + k; m = msp_block s in
      if unat (reg16 s rs) < 256 \<and> a < length m
      then Some (s\<lparr>msp_block := m[a := sbox (ucast (reg16 s rs))]\<rparr>)
      else None)"

text \<open>\<^verbatim>\<open>mov.b rs, k(r15)\<close>: the low byte of \<open>rs\<close> to the byte at offset \<open>k\<close> of the block\<close>
definition movb_st :: "nat \<Rightarrow> nat \<Rightarrow> msp_state \<Rightarrow> msp_state option" where
  "movb_st rs k s =
     (let a = unat (reg16 s 15) + k; m = msp_block s in
      if a < length m then Some (s\<lparr>msp_block := m[a := lo8 (reg16 s rs)]\<rparr>) else None)"

text \<open>\<^verbatim>\<open>xor.b @r14+, rd\<close>: the next byte of the round keys into the low byte of \<open>rd\<close>\<close>
definition xorb_rk :: "nat \<Rightarrow> msp_state \<Rightarrow> msp_state option" where
  "xorb_rk rd s =
     (let a = unat (reg16 s 14); m = msp_rk s in
      if a < length m
      then Some (s\<lparr>reg16 := (reg16 s)(rd := ucast (lo8 (reg16 s rd) XOR m ! a),
                                        14 := reg16 s 14 + 1),
                   msp_rk_reads := msp_rk_reads s @ [a]\<rparr>)
      else None)"

text \<open>\<^verbatim>\<open>xor.b #imm, rd\<close>\<close>
definition xorb_imm :: "byte \<Rightarrow> nat \<Rightarrow> msp_state \<Rightarrow> msp_state option" where
  "xorb_imm imm rd s = Some (set_reg16 rd (ucast (lo8 (reg16 s rd) XOR imm)) s)"

text \<open>\<^verbatim>\<open>swpb rd\<close>: the two bytes of \<open>rd\<close> change places\<close>
definition swpb :: "nat \<Rightarrow> msp_state \<Rightarrow> msp_state option" where
  "swpb rd s = Some (set_reg16 rd (le16 (hi8 (reg16 s rd)) (lo8 (reg16 s rd))) s)"

text \<open>\<^verbatim>\<open>xor rs, rd\<close> (the destination is the second operand) and \<^verbatim>\<open>dec rd\<close>\<close>
definition xor16 :: "nat \<Rightarrow> nat \<Rightarrow> msp_state \<Rightarrow> msp_state option" where
  "xor16 rs rd s = Some (set_reg16 rd (reg16 s rd XOR reg16 s rs) s)"

definition dec16 :: "nat \<Rightarrow> msp_state \<Rightarrow> msp_state option" where
  "dec16 rd s = Some (set_reg16 rd (reg16 s rd - 1) s)"

text \<open>Round counter and load of the block, lines 285-293.\<close>
definition load_MSP :: "(msp_state \<Rightarrow> msp_state option) list" where
  "load_MSP =
    [mov_imm16 40 13,
     mov_ld 0 4,  mov_ld 2 5,  mov_ld 4 6,   mov_ld 6 7,
     mov_ld 8 8,  mov_ld 10 9, mov_ld 12 10, mov_ld 14 11]"

text \<open>"SubCells, AddConstants, AddRoundTweakey and ShiftRows", lines 295-353.\<close>
definition SubCells_AddRoundTweakey_ShiftRows_MSP ::
    "(byte \<Rightarrow> byte) \<Rightarrow> (msp_state \<Rightarrow> msp_state option) list" where
  "SubCells_AddRoundTweakey_ShiftRows_MSP sbox =
    [movb 4 12,  movb_SBOX sbox 12 12, xorb_rk 12, movb_st 12 0,
     swpb 4,
     movb 4 12,  movb_SBOX sbox 12 12, xorb_rk 12, movb_st 12 1,
     movb 5 12,  movb_SBOX sbox 12 12, xorb_rk 12, movb_st 12 2,
     swpb 5,
     movb 5 12,  movb_SBOX sbox 12 12, xorb_rk 12, movb_st 12 3,
     movb 6 12,  movb_SBOX sbox 12 12, xorb_rk 12, movb_st 12 5,
     swpb 6,
     movb 6 12,  movb_SBOX sbox 12 12, xorb_rk 12, movb_st 12 6,
     movb 7 12,  movb_SBOX sbox 12 12, xorb_rk 12, movb_st 12 7,
     swpb 7,
     movb 7 12,  movb_SBOX sbox 12 12, xorb_rk 12, movb_st 12 4,
     movb 8 12,  movb_SBOX sbox 12 12, xorb_imm 0x02 12, movb_st 12 10,
     swpb 8,
     movb 8 12,  movb_SBOX_st sbox 12 11,
     movb 9 12,  movb_SBOX_st sbox 12 8,
     swpb 9,
     movb 9 12,  movb_SBOX_st sbox 12 9,
     movb 10 12, movb_SBOX_st sbox 12 15,
     swpb 10,
     movb 10 12, movb_SBOX_st sbox 12 12,
     movb 11 12, movb_SBOX_st sbox 12 13,
     swpb 11,
     movb 11 12, movb_SBOX_st sbox 12 14]"

text \<open>MixColumns, lines 354-373.\<close>
definition MixColumns_MSP :: "(msp_state \<Rightarrow> msp_state option) list" where
  "MixColumns_MSP =
    [mov_ld 0 6,  mov_ld 2 7,   mov_ld 4 8,  mov_ld 6 9,
     mov_ld 8 10, mov_ld 10 11, mov_ld 12 4, mov_ld 14 5,
     xor16 10 8, xor16 6 10, xor16 10 4,
     xor16 11 9, xor16 7 11, xor16 11 5]"

definition round_MSP :: "(byte \<Rightarrow> byte) \<Rightarrow> (msp_state \<Rightarrow> msp_state option) list" where
  "round_MSP sbox = SubCells_AddRoundTweakey_ShiftRows_MSP sbox @ MixColumns_MSP"

text \<open>One pass through \<^verbatim>\<open>enc_loop\<close>: the body and \<^verbatim>\<open>dec r13\<close>; \<^verbatim>\<open>jne enc_loop\<close> jumps back
  while \<^verbatim>\<open>r13\<close> is not zero.\<close>
definition iteration_MSP :: "(byte \<Rightarrow> byte) \<Rightarrow> msp_state \<Rightarrow> msp_state option" where
  "iteration_MSP sbox = exec (round_MSP sbox @ [dec16 13])"

text \<open>Store of the block, lines 376-383.\<close>
definition store_MSP :: "(msp_state \<Rightarrow> msp_state option) list" where
  "store_MSP =
    [mov_st 4 0, mov_st 5 2, mov_st 6 4,   mov_st 7 6,
     mov_st 8 8, mov_st 9 10, mov_st 10 12, mov_st 11 14]"

lemmas msp_instr_defs = set_reg16_def mov_imm16_def mov_ld_def mov_st_def movb_def movb_SBOX_def
  movb_SBOX_st_def movb_st_def xorb_rk_def xorb_imm_def swpb_def xor16_def dec16_def

lemma round_MSP_keeps_r13: "list_all (keeps (\<lambda>s. reg16 s 13)) (round_MSP sbox)"
  by (simp add: round_MSP_def SubCells_AddRoundTweakey_ShiftRows_MSP_def MixColumns_MSP_def
      keeps_def msp_instr_defs Let_def)

lemma iteration_MSP_r13:
  assumes "iteration_MSP sbox s = Some s'"
  shows "reg16 s' 13 = reg16 s 13 - 1"
proof -
  from assms obtain t where t: "exec (round_MSP sbox) s = Some t" "dec16 13 t = Some s'"
    by (auto simp: iteration_MSP_def exec_append split: option.splits)
  from exec_keeps[OF round_MSP_keeps_r13 t(1)] t(2) show ?thesis
    by (auto simp: dec16_def set_reg16_def)
qed

function enc_loop_MSP :: "(byte \<Rightarrow> byte) \<Rightarrow> msp_state \<Rightarrow> msp_state option" where
  "enc_loop_MSP sbox s =
     (case iteration_MSP sbox s of
        None \<Rightarrow> None
      | Some s' \<Rightarrow> if reg16 s' 13 \<noteq> 0 then enc_loop_MSP sbox s' else Some s')"
  by pat_completeness auto
termination
proof (relation "measure (\<lambda>(sbox, s). unat (reg16 s 13 - 1))")
  show "wf (measure (\<lambda>(sbox, s). unat (reg16 s 13 - 1)))" by simp
next
  fix sbox :: "byte \<Rightarrow> byte" and s s' :: msp_state
  assume it: "iteration_MSP sbox s = Some s'" and nz: "reg16 s' 13 \<noteq> 0"
  have eq: "reg16 s' 13 = reg16 s 13 - 1" by (rule iteration_MSP_r13[OF it])
  from nz have "unat (reg16 s' 13 - 1) < unat (reg16 s' 13)"
    by (simp add: unat_minus_one unat_gt_0 word_neq_0_conv)
  then show "((sbox, s'), (sbox, s)) \<in> measure (\<lambda>(sbox, s). unat (reg16 s 13 - 1))"
    by (simp add: eq)
qed

definition Encrypt_MSP :: "(byte \<Rightarrow> byte) \<Rightarrow> msp_state \<Rightarrow> msp_state option" where
  "Encrypt_MSP sbox s =
     (case exec load_MSP s of
        None \<Rightarrow> None
      | Some s1 \<Rightarrow>
          (case enc_loop_MSP sbox s1 of
             None \<Rightarrow> None
           | Some s2 \<Rightarrow> exec store_MSP s2))"

text \<open>Entry: \<^verbatim>\<open>r15\<close> points to the first byte of \<open>block\<close>, \<^verbatim>\<open>r14\<close> to the first byte of
  \<open>roundKeys\<close>.\<close>
definition msp_entry :: "(nat \<Rightarrow> 16 word) \<Rightarrow> byte list \<Rightarrow> byte list \<Rightarrow> msp_state" where
  "msp_entry rs block roundKeys =
     \<lparr>reg16 = rs(15 := 0, 14 := 0), msp_block = block, msp_rk = roundKeys, msp_rk_reads = []\<rparr>"

text \<open>The cells \<open>s0 .. s15\<close> in \<^verbatim>\<open>r4\<close>-\<^verbatim>\<open>r11\<close> at the top of the loop, low byte first.\<close>
definition cells_MSP :: "msp_state \<Rightarrow> byte list" where
  "cells_MSP s = concat (map (\<lambda>r. [lo8 (reg16 s r), hi8 (reg16 s r)]) [4, 5, 6, 7, 8, 9, 10, 11])"

subsection \<open>The choice of the body (lines 40, 268, 396, 503-507)\<close>

text \<open>
  \<^verbatim>\<open>#ifdef AVR ... #elif defined MSP ... #elif defined ARM ... #else\<close>: the first macro that is
  defined selects the body. With none of them defined the body is empty
  (\<^verbatim>\<open>/* Add here the cipher encryption implementation */\<close>). The caller sees the two
  buffers; the registers that the caller leaves in place at entry are taken to be 0 here
  (the assembly bodies load every register they read before they read it).
\<close>

record buffers =
  block_buf :: "byte list"
  roundKeys_buf :: "byte list"

datatype body = AVR | MSP | ARM | Generic

definition selected_body :: "bool \<Rightarrow> bool \<Rightarrow> bool \<Rightarrow> body" where
  "selected_body avr_defined msp_defined arm_defined =
     (if avr_defined then AVR else if msp_defined then MSP else if arm_defined then ARM
      else Generic)"

definition Encrypt_generic :: "buffers \<Rightarrow> buffers option" where
  "Encrypt_generic b = Some b"

definition Encrypt :: "body \<Rightarrow> (byte \<Rightarrow> byte) \<Rightarrow> buffers \<Rightarrow> buffers option" where
  "Encrypt bd sbox b =
     (case bd of
        AVR \<Rightarrow>
          (case Encrypt_AVR sbox (avr_entry (\<lambda>r. 0) (block_buf b) (roundKeys_buf b)) of
             None \<Rightarrow> None
           | Some s \<Rightarrow> Some \<lparr>block_buf = avr_block s, roundKeys_buf = avr_rk s\<rparr>)
      | MSP \<Rightarrow>
          (case Encrypt_MSP sbox (msp_entry (\<lambda>r. 0) (block_buf b) (roundKeys_buf b)) of
             None \<Rightarrow> None
           | Some s \<Rightarrow> Some \<lparr>block_buf = msp_block s, roundKeys_buf = msp_rk s\<rparr>)
      | ARM \<Rightarrow>
          (case Encrypt_ARM sbox (arm_entry (\<lambda>r. 0) (block_buf b) (roundKeys_buf b)) of
             None \<Rightarrow> None
           | Some s \<Rightarrow> Some \<lparr>block_buf = block_mem s, roundKeys_buf = rk_mem s\<rparr>)
      | Generic \<Rightarrow> Encrypt_generic b)"

subsection \<open>Facts about little-endian words\<close>

lemma bit_le32: "bit (le32 a b c d) n \<longleftrightarrow>
   (if n < 8 then bit a n else if n < 16 then bit b (n - 8) else if n < 24 then bit c (n - 16)
    else bit d (n - 24))"
  apply (simp add: le32_def bit_simps)
  apply (auto dest: bit_imp_le_length)?
  done

lemma ff_mask: "(0xff :: 32 word) = mask 8"
  by (simp add: mask_eq_exp_minus_1)

lemma and_ff_0: "le32 a b c d AND 0xff = ucast a"
  unfolding ff_mask
  apply (rule bit_word_eqI)
  apply (simp add: bit_simps bit_le32)
  apply (auto dest: bit_imp_le_length)?
  done

lemma and_ff_1: "0xff AND drop_bit 8 (le32 a b c d) = ucast b"
  unfolding ff_mask
  apply (rule bit_word_eqI)
  apply (simp add: bit_simps bit_le32)
  apply (auto dest: bit_imp_le_length)?
  done

lemma and_ff_2: "0xff AND drop_bit 16 (le32 a b c d) = ucast c"
  unfolding ff_mask
  apply (rule bit_word_eqI)
  apply (simp add: bit_simps bit_le32)
  apply (auto dest: bit_imp_le_length)?
  done

lemma lsr_24: "drop_bit 24 (le32 a b c d) = ucast d"
  apply (rule bit_word_eqI)
  apply (simp add: bit_simps bit_le32)
  apply (auto dest: bit_imp_le_length)?
  done

lemma bfi_0: "bfi_val (le32 a b c d) (ucast (x::byte)) 0 8 = le32 x b c d"
  apply (rule bit_word_eqI)
  apply (simp add: bfi_val_def bit_simps bit_le32)
  apply (auto dest: bit_imp_le_length)?
  done
lemma bfi_1: "bfi_val (le32 a b c d) (ucast (x::byte)) 8 8 = le32 a x c d"
  apply (rule bit_word_eqI)
  apply (simp add: bfi_val_def bit_simps bit_le32)
  apply (auto dest: bit_imp_le_length)?
  done
lemma bfi_2: "bfi_val (le32 a b c d) (ucast (x::byte)) 16 8 = le32 a b x d"
  apply (rule bit_word_eqI)
  apply (simp add: bfi_val_def bit_simps bit_le32)
  apply (auto dest: bit_imp_le_length)?
  done
lemma bfi_3: "bfi_val (le32 a b c d) (ucast (x::byte)) 24 8 = le32 a b c x"
  apply (rule bit_word_eqI)
  apply (simp add: bfi_val_def bit_simps bit_le32)
  apply (auto dest: bit_imp_le_length)?
  done

lemma xor_le32: "le32 a b c d XOR le32 a' b' c' d' = le32 (a XOR a') (b XOR b') (c XOR c') (d XOR d')"
  apply (rule bit_word_eqI)
  apply (simp add: bit_simps bit_le32)
  apply (auto dest: bit_imp_le_length)?
  done

lemma xor_2: "le32 a b c d XOR 2 = le32 (a XOR 2) b c d"
  apply (rule bit_word_eqI)
  apply (simp add: bit_simps bit_le32)
  apply (auto dest: bit_imp_le_length)?
  done

lemma rot_mod24: "n < 32 \<Longrightarrow> (n + 24) mod 32 = (if n < 8 then n + 24 else n - 8)" for n :: nat
  by (simp add: mod_if)
lemma rot_mod16: "n < 32 \<Longrightarrow> (n + 16) mod 32 = (if n < 16 then n + 16 else n - 16)" for n :: nat
  by (simp add: mod_if)
lemma rot_mod8: "n < 32 \<Longrightarrow> (n + 8) mod 32 = (if n < 24 then n + 8 else n - 24)" for n :: nat
  by (simp add: mod_if)

lemma ror_24: "word_rotr 24 (le32 a b c d) = le32 d a b c"
  apply (rule bit_word_eqI)
  apply (simp add: bit_simps bit_le32 rot_mod24)
  apply (auto dest: bit_imp_le_length)?
  done
lemma ror_16: "word_rotr 16 (le32 a b c d) = le32 c d a b"
  apply (rule bit_word_eqI)
  apply (simp add: bit_simps bit_le32 rot_mod16)
  apply (auto dest: bit_imp_le_length)?
  done
lemma ror_8: "word_rotr 8 (le32 a b c d) = le32 b c d a"
  apply (rule bit_word_eqI)
  apply (simp add: bit_simps bit_le32 rot_mod8)
  apply (auto dest: bit_imp_le_length)?
  done

lemma le32_bytes: "le32 (byte_of 0 w) (byte_of 1 w) (byte_of 2 w) (byte_of 3 w) = w"
  apply (rule bit_word_eqI)
  apply (simp add: bit_simps bit_le32 byte_of_def)
  apply (auto dest: bit_imp_le_length)?
  done

lemma byte_of_le32:
  "byte_of 0 (le32 a b c d) = a" "byte_of 1 (le32 a b c d) = b"
  "byte_of (Suc 0) (le32 a b c d) = b"
  "byte_of 2 (le32 a b c d) = c" "byte_of 3 (le32 a b c d) = d"
  by (rule bit_word_eqI, simp add: byte_of_def bit_simps bit_le32)+

lemma unat_ucast_byte: "unat (ucast (a::byte) :: 32 word) < 256"
  proof -
  have "unat a < 256" using unsigned_less[of a, where 'a=nat] by simp
  then have "take_bit 32 (unat a) < 256"
    by (rule le_less_trans[OF take_bit_nat_less_eq_self])
  then show ?thesis by (simp add: unsigned_ucast_eq)
qed

lemma ucast_ucast_byte: "(ucast (ucast (a::byte) :: 32 word) :: byte) = a"
  by (rule bit_word_eqI) (simp add: bit_simps)

lemmas le32_simps = and_ff_0 and_ff_1 and_ff_2 lsr_24 bfi_0 bfi_1 bfi_2 bfi_3 xor_le32 xor_2
  ror_24 ror_16 ror_8 unat_ucast_byte ucast_ucast_byte


lemmas le32_simps' = le32_simps byte_of_le32

subsection \<open>The ARM body computes the rounds on the cells\<close>

lemma SubCells_ARM_le32:
  assumes "regs s R2 = le32 a0 a1 a2 a3" "regs s R3 = le32 a4 a5 a6 a7"
    "regs s R4 = le32 a8 a9 a10 a11" "regs s R5 = le32 a12 a13 a14 a15"
    "regs s R10 = 0xff"
  shows "\<exists>s'. exec (SubCells_ARM sbox) s = Some s'
     \<and> cells_ARM s' = SubCells sbox
          [a0, a1, a2, a3, a4, a5, a6, a7, a8, a9, a10, a11, a12, a13, a14, a15]
     \<and> regs s' R0 = regs s R0 \<and> regs s' R1 = regs s R1 \<and> regs s' R8 = regs s R8
     \<and> regs s' R10 = regs s R10 \<and> block_mem s' = block_mem s \<and> rk_mem s' = rk_mem s
     \<and> rk_reads s' = rk_reads s"
  using assms
  by (simp add: SubCells_ARM_def arm_instr_defs le32_simps' cells_ARM_def word_bytes_def
      SubCells_def)

lemma SubCells_ARM_cells:
  assumes "regs s R10 = 0xff"
  shows "\<exists>s'. exec (SubCells_ARM sbox) s = Some s'
     \<and> cells_ARM s' = SubCells sbox (cells_ARM s)
     \<and> regs s' R0 = regs s R0 \<and> regs s' R1 = regs s R1 \<and> regs s' R8 = regs s R8
     \<and> regs s' R10 = regs s R10 \<and> block_mem s' = block_mem s \<and> rk_mem s' = rk_mem s
     \<and> rk_reads s' = rk_reads s"
  using SubCells_ARM_le32[OF le32_bytes[symmetric] le32_bytes[symmetric] le32_bytes[symmetric]
      le32_bytes[symmetric] assms, of sbox]
  by (simp add: cells_ARM_def word_bytes_def)

lemma AddRoundTweakey_ARM_le32:
  assumes "regs s R2 = le32 a0 a1 a2 a3" "regs s R3 = le32 a4 a5 a6 a7"
    "regs s R4 = le32 a8 a9 a10 a11" "regs s R5 = le32 a12 a13 a14 a15"
    "unat (regs s R1) + 8 \<le> length (rk_mem s)"
  shows "\<exists>s'. exec AddRoundTweakey_ARM s = Some s'
     \<and> cells_ARM s' = AddRoundTweakey (take 8 (drop (unat (regs s R1)) (rk_mem s)))
          [a0, a1, a2, a3, a4, a5, a6, a7, a8, a9, a10, a11, a12, a13, a14, a15]
     \<and> regs s' R0 = regs s R0 \<and> regs s' R1 = regs s R1 + 8 \<and> regs s' R8 = regs s R8
     \<and> regs s' R10 = regs s R10 \<and> block_mem s' = block_mem s \<and> rk_mem s' = rk_mem s
     \<and> rk_reads s' = rk_reads s @ [unat (regs s R1) ..< unat (regs s R1) + 8]"
  using assms
  by (simp add: AddRoundTweakey_ARM_def arm_instr_defs le32_simps' cells_ARM_def word_bytes_def
      AddRoundTweakey_def Let_def)

lemma AddRoundTweakey_ARM_cells:
  assumes "unat (regs s R1) + 8 \<le> length (rk_mem s)"
  shows "\<exists>s'. exec AddRoundTweakey_ARM s = Some s'
     \<and> cells_ARM s' = AddRoundTweakey (take 8 (drop (unat (regs s R1)) (rk_mem s))) (cells_ARM s)
     \<and> regs s' R0 = regs s R0 \<and> regs s' R1 = regs s R1 + 8 \<and> regs s' R8 = regs s R8
     \<and> regs s' R10 = regs s R10 \<and> block_mem s' = block_mem s \<and> rk_mem s' = rk_mem s
     \<and> rk_reads s' = rk_reads s @ [unat (regs s R1) ..< unat (regs s R1) + 8]"
  using AddRoundTweakey_ARM_le32[OF le32_bytes[symmetric] le32_bytes[symmetric]
      le32_bytes[symmetric] le32_bytes[symmetric] assms]
  by (simp add: cells_ARM_def word_bytes_def)

lemma ShiftRows_ARM_le32:
  assumes "regs s R2 = le32 a0 a1 a2 a3" "regs s R3 = le32 a4 a5 a6 a7"
    "regs s R4 = le32 a8 a9 a10 a11" "regs s R5 = le32 a12 a13 a14 a15"
  shows "\<exists>s'. exec ShiftRows_ARM s = Some s'
     \<and> cells_ARM s' = ShiftRows
          [a0, a1, a2, a3, a4, a5, a6, a7, a8, a9, a10, a11, a12, a13, a14, a15]
     \<and> regs s' R0 = regs s R0 \<and> regs s' R1 = regs s R1 \<and> regs s' R8 = regs s R8
     \<and> regs s' R10 = regs s R10 \<and> block_mem s' = block_mem s \<and> rk_mem s' = rk_mem s
     \<and> rk_reads s' = rk_reads s"
  using assms
  by (simp add: ShiftRows_ARM_def arm_instr_defs le32_simps' cells_ARM_def word_bytes_def
      ShiftRows_def)

lemma ShiftRows_ARM_cells:
  "\<exists>s'. exec ShiftRows_ARM s = Some s'
     \<and> cells_ARM s' = ShiftRows (cells_ARM s)
     \<and> regs s' R0 = regs s R0 \<and> regs s' R1 = regs s R1 \<and> regs s' R8 = regs s R8
     \<and> regs s' R10 = regs s R10 \<and> block_mem s' = block_mem s \<and> rk_mem s' = rk_mem s
     \<and> rk_reads s' = rk_reads s"
  using ShiftRows_ARM_le32[OF le32_bytes[symmetric] le32_bytes[symmetric]
      le32_bytes[symmetric] le32_bytes[symmetric]]
  by (simp add: cells_ARM_def word_bytes_def)

lemma MixColumns_ARM_le32:
  assumes "regs s R2 = le32 a0 a1 a2 a3" "regs s R3 = le32 a4 a5 a6 a7"
    "regs s R4 = le32 a8 a9 a10 a11" "regs s R5 = le32 a12 a13 a14 a15"
  shows "\<exists>s'. exec MixColumns_ARM s = Some s'
     \<and> cells_ARM s' = MixColumns
          [a0, a1, a2, a3, a4, a5, a6, a7, a8, a9, a10, a11, a12, a13, a14, a15]
     \<and> regs s' R0 = regs s R0 \<and> regs s' R1 = regs s R1 \<and> regs s' R8 = regs s R8
     \<and> regs s' R10 = regs s R10 \<and> block_mem s' = block_mem s \<and> rk_mem s' = rk_mem s
     \<and> rk_reads s' = rk_reads s"
  using assms
  by (simp add: MixColumns_ARM_def arm_instr_defs le32_simps' cells_ARM_def word_bytes_def
      MixColumns_def rotate_rows_def MixColumns_xors_def)

lemma MixColumns_ARM_cells:
  "\<exists>s'. exec MixColumns_ARM s = Some s'
     \<and> cells_ARM s' = MixColumns (cells_ARM s)
     \<and> regs s' R0 = regs s R0 \<and> regs s' R1 = regs s R1 \<and> regs s' R8 = regs s R8
     \<and> regs s' R10 = regs s R10 \<and> block_mem s' = block_mem s \<and> rk_mem s' = rk_mem s
     \<and> rk_reads s' = rk_reads s"
  using MixColumns_ARM_le32[OF le32_bytes[symmetric] le32_bytes[symmetric]
      le32_bytes[symmetric] le32_bytes[symmetric]]
  by (simp add: cells_ARM_def word_bytes_def)

lemma round_ARM_le32:
  assumes "regs s R2 = le32 a0 a1 a2 a3" "regs s R3 = le32 a4 a5 a6 a7"
    "regs s R4 = le32 a8 a9 a10 a11" "regs s R5 = le32 a12 a13 a14 a15"
    "regs s R10 = 0xff" "unat (regs s R1) + 8 \<le> length (rk_mem s)"
  shows "\<exists>s'. exec (round_ARM sbox) s = Some s'
     \<and> cells_ARM s' = skinny_round sbox (take 8 (drop (unat (regs s R1)) (rk_mem s)))
          [a0, a1, a2, a3, a4, a5, a6, a7, a8, a9, a10, a11, a12, a13, a14, a15]
     \<and> regs s' R0 = regs s R0 \<and> regs s' R1 = regs s R1 + 8 \<and> regs s' R8 = regs s R8
     \<and> regs s' R10 = 0xff \<and> block_mem s' = block_mem s \<and> rk_mem s' = rk_mem s
     \<and> rk_reads s' = rk_reads s @ [unat (regs s R1) ..< unat (regs s R1) + 8]"
  using assms
  by (simp add: round_ARM_def SubCells_ARM_def AddRoundTweakey_ARM_def ShiftRows_ARM_def
      MixColumns_ARM_def arm_instr_defs le32_simps' Let_def cells_ARM_def word_bytes_def
      skinny_round_def MixColumns_def rotate_rows_def MixColumns_xors_def ShiftRows_def
      AddRoundTweakey_def SubCells_def)


lemma iteration_ARM_cells:
  assumes "regs s R10 = 0xff" "unat (regs s R1) + 8 \<le> length (rk_mem s)"
  shows "\<exists>s'. iteration_ARM sbox s = Some s'
     \<and> cells_ARM s' = skinny_round sbox (take 8 (drop (unat (regs s R1)) (rk_mem s))) (cells_ARM s)
     \<and> regs s' R0 = regs s R0 \<and> regs s' R1 = regs s R1 + 8 \<and> regs s' R8 = regs s R8 - 1
     \<and> regs s' R10 = 0xff \<and> block_mem s' = block_mem s \<and> rk_mem s' = rk_mem s
     \<and> rk_reads s' = rk_reads s @ [unat (regs s R1) ..< unat (regs s R1) + 8]"
proof -
  from round_ARM_le32[OF le32_bytes[symmetric] le32_bytes[symmetric] le32_bytes[symmetric]
      le32_bytes[symmetric] assms, of sbox]
  obtain t where t: "exec (round_ARM sbox) s = Some t"
     "cells_ARM t = skinny_round sbox (take 8 (drop (unat (regs s R1)) (rk_mem s))) (cells_ARM s)"
     "regs t R0 = regs s R0" "regs t R1 = regs s R1 + 8" "regs t R8 = regs s R8"
     "regs t R10 = 0xff" "block_mem t = block_mem s" "rk_mem t = rk_mem s"
     "rk_reads t = rk_reads s @ [unat (regs s R1) ..< unat (regs s R1) + 8]"
    by (auto simp: cells_ARM_def word_bytes_def)
  then show ?thesis
    by (simp add: iteration_ARM_def exec_append subs_imm_def set_reg_def cells_ARM_def)
qed

lemma repeat_iteration_ARM:
  assumes "regs s R10 = 0xff" "unat (regs s R1) + 8 * n \<le> length (rk_mem s)"
    "unat (regs s R1) + 8 * n < 2 ^ 32"
  shows "\<exists>s'. repeat_opt n (iteration_ARM sbox) s = Some s'
     \<and> cells_ARM s' = skinny_rounds sbox n (drop (unat (regs s R1)) (rk_mem s)) (cells_ARM s)
     \<and> regs s' R0 = regs s R0 \<and> unat (regs s' R1) = unat (regs s R1) + 8 * n
     \<and> regs s' R8 = regs s R8 - of_nat n
     \<and> regs s' R10 = 0xff \<and> block_mem s' = block_mem s \<and> rk_mem s' = rk_mem s
     \<and> rk_reads s' = rk_reads s @ [unat (regs s R1) ..< unat (regs s R1) + 8 * n]"
  using assms
proof (induction n arbitrary: s)
  case 0
  then show ?case by simp
next
  case (Suc n)
  let ?a = "unat (regs s R1)"
  from Suc.prems have a8: "?a + 8 \<le> length (rk_mem s)" by simp
  from iteration_ARM_cells[OF Suc.prems(1) a8, of sbox]
  obtain t where t: "iteration_ARM sbox s = Some t"
     "cells_ARM t = skinny_round sbox (take 8 (drop ?a (rk_mem s))) (cells_ARM s)"
     "regs t R0 = regs s R0" "regs t R1 = regs s R1 + 8" "regs t R8 = regs s R8 - 1"
     "regs t R10 = 0xff" "block_mem t = block_mem s" "rk_mem t = rk_mem s"
     "rk_reads t = rk_reads s @ [?a ..< ?a + 8]"
    by blast
  from Suc.prems(3) have "?a + unat (8 :: 32 word) < 2 ^ 32" by simp
  then have "unat (regs s R1 + 8) = ?a + unat (8 :: 32 word)"
    by (intro unat_add_lem[THEN iffD1]) simp
  then have ua: "unat (regs t R1) = ?a + 8" by (simp add: t(4))
  from Suc.prems ua t have p: "regs t R10 = 0xff" "unat (regs t R1) + 8 * n \<le> length (rk_mem t)"
    "unat (regs t R1) + 8 * n < 2 ^ 32" by simp_all
  from Suc.IH[OF p] obtain s' where s': "repeat_opt n (iteration_ARM sbox) t = Some s'"
     "cells_ARM s' = skinny_rounds sbox n (drop (unat (regs t R1)) (rk_mem t)) (cells_ARM t)"
     "regs s' R0 = regs t R0" "unat (regs s' R1) = unat (regs t R1) + 8 * n"
     "regs s' R8 = regs t R8 - of_nat n"
     "regs s' R10 = 0xff" "block_mem s' = block_mem t" "rk_mem s' = rk_mem t"
     "rk_reads s' = rk_reads t @ [unat (regs t R1) ..< unat (regs t R1) + 8 * n]"
    by blast
  have upt: "[?a ..< ?a + 8] @ [?a + 8 ..< ?a + 8 + 8 * n] = [?a ..< ?a + 8 * Suc n]"
    by (metis add.assoc le_add1 mult_Suc_right upt_add_eq_append)
  show ?case
    using t s' ua upt by (simp add: drop_drop add.commute)
qed

lemma enc_loop_ARM_repeat:
  assumes "regs s R8 = of_nat n" "0 < n" "n < 2 ^ 32"
  shows "enc_loop_ARM sbox s = repeat_opt n (iteration_ARM sbox) s"
  using assms
proof (induction n arbitrary: s)
  case 0
  then show ?case by simp
next
  case (Suc n)
  show ?case
  proof (cases "iteration_ARM sbox s")
    case None
    then show ?thesis by (subst enc_loop_ARM.simps) simp
  next
    case (Some t)
    from iteration_ARM_R8[OF Some] Suc.prems(1) have r8: "regs t R8 = of_nat n" by simp
    show ?thesis
    proof (cases "n = 0")
      case True
      with Some r8 show ?thesis by (subst enc_loop_ARM.simps) simp
    next
      case False
      with Suc.prems have n: "0 < n" "n < 2 ^ 32" by simp_all
      then have "(of_nat n :: 32 word) \<noteq> 0"
        by (intro of_nat_neq_0) simp_all
      with Some r8 Suc.IH[OF r8 n] show ?thesis by (subst enc_loop_ARM.simps) simp
    qed
  qed
qed


lemma upt16: "[0..<16] = [0, 1, 2, 3, 4, 5, 6, 7, 8, 9, 10, 11, 12, 13, 14, 15]"
  by code_simp

lemma all_less_16: "(\<forall>n<16. P n) \<longleftrightarrow> list_all P [0..<16]"
  by (auto simp add: list_all_iff)

lemma list16:
  assumes "length xs = 16"
  shows "[xs ! 0, xs ! 1, xs ! 2, xs ! 3, xs ! 4, xs ! 5, xs ! 6, xs ! 7,
          xs ! 8, xs ! 9, xs ! 10, xs ! 11, xs ! 12, xs ! 13, xs ! 14, xs ! 15] = xs"
proof -
  have "map ((!) xs) [0..<16] = xs"
    using map_nth[of xs] assms by simp
  then show ?thesis
    unfolding upt16 by simp
qed

lemma entry_ARM:
  assumes "length block = 16"
  shows "\<exists>s1. exec load_ARM (arm_entry rs block roundKeys) = Some s1
    \<and> cells_ARM s1 = block \<and> regs s1 R0 = 0 \<and> regs s1 R1 = 0 \<and> regs s1 R8 = 40
    \<and> regs s1 R10 = 0xff \<and> block_mem s1 = block \<and> rk_mem s1 = roundKeys \<and> rk_reads s1 = []"
  using assms list16[OF assms]
  by (simp add: load_ARM_def arm_entry_def mov_imm_def set_reg_def ldmia_block_def cells_ARM_def word_bytes_def
      byte_of_le32 numeral_2_eq_2[symmetric])

lemma stmia_block_cells:
  assumes "regs s R0 = 0" "length (block_mem s) = 16"
  shows "stmia_block s = Some (s\<lparr>block_mem := cells_ARM s\<rparr>)"
  using assms by (simp add: stmia_block_def cells_ARM_def)

lemma Encrypt_ARM_run:
  assumes "length block = 16" "320 \<le> length roundKeys"
  shows "\<exists>s'. Encrypt_ARM sbox (arm_entry rs block roundKeys) = Some s'
     \<and> block_mem s' = skinny_encrypt sbox block roundKeys
     \<and> rk_mem s' = roundKeys \<and> rk_reads s' = [0 ..< 320]"
proof -
  from entry_ARM[OF assms(1), of rs roundKeys] obtain s1 where
    s1: "exec load_ARM (arm_entry rs block roundKeys) = Some s1"
      "cells_ARM s1 = block" "regs s1 R0 = 0" "regs s1 R1 = 0" "regs s1 R8 = 40"
      "regs s1 R10 = 0xff" "block_mem s1 = block" "rk_mem s1 = roundKeys" "rk_reads s1 = []"
    by blast
  have loop: "enc_loop_ARM sbox s1 = repeat_opt 40 (iteration_ARM sbox) s1"
    by (rule enc_loop_ARM_repeat) (simp_all add: s1)
  have "\<exists>s2. repeat_opt 40 (iteration_ARM sbox) s1 = Some s2
     \<and> cells_ARM s2 = skinny_rounds sbox 40 (drop (unat (regs s1 R1)) (rk_mem s1)) (cells_ARM s1)
     \<and> regs s2 R0 = regs s1 R0 \<and> unat (regs s2 R1) = unat (regs s1 R1) + 8 * 40
     \<and> regs s2 R8 = regs s1 R8 - of_nat 40
     \<and> regs s2 R10 = 0xff \<and> block_mem s2 = block_mem s1 \<and> rk_mem s2 = rk_mem s1
     \<and> rk_reads s2 = rk_reads s1 @ [unat (regs s1 R1) ..< unat (regs s1 R1) + 8 * 40]"
    by (rule repeat_iteration_ARM) (use assms s1 in simp_all)
  then obtain s2 where s2: "repeat_opt 40 (iteration_ARM sbox) s1 = Some s2"
     "cells_ARM s2 = skinny_rounds sbox 40 roundKeys block"
     "regs s2 R0 = 0" "block_mem s2 = block" "rk_mem s2 = roundKeys"
     "rk_reads s2 = [0 ..< 320]"
    using s1 by auto
  have "stmia_block s2 = Some (s2\<lparr>block_mem := cells_ARM s2\<rparr>)"
    by (rule stmia_block_cells) (simp_all add: s2 assms)
  then show ?thesis
    using s1(1) loop s2 by (simp add: Encrypt_ARM_def skinny_encrypt_def)
qed

subsection \<open>The AVR body computes the rounds on the cells\<close>

lemma unat_ptr16_add:
  fixes z :: "16 word"
  assumes "unat z + 8 < 65536"
  shows "unat (z + 1) = unat z + 1" "unat (2 + z) = unat z + 2" "unat (3 + z) = unat z + 3"
    "unat (4 + z) = unat z + 4" "unat (5 + z) = unat z + 5" "unat (6 + z) = unat z + 6"
    "unat (7 + z) = unat z + 7" "unat (8 + z) = unat z + 8"
  using assms by (simp_all add: unat_word_ariths)

lemma upt8: "[a ..< a + 8] = [a, a + 1, a + 2, a + 3, a + 4, a + 5, a + 6, a + 7]"
proof -
  have "[0..<8] = [0, 1, 2, 3, 4, 5, 6, 7::nat]" by code_simp
  then have "map (\<lambda>i. i + a) [0..<8] = [a, a + 1, a + 2, a + 3, a + 4, a + 5, a + 6, a + 7]"
    by (simp add: add.commute)
  then show ?thesis by (simp add: map_add_upt add.commute)
qed

lemma round_AVR_cells:
  assumes "reg8 s 25 = 0x02" "unat (ptrZ s) + 8 \<le> length (avr_rk s)"
    "unat (ptrZ s) + 8 < 65536"
  shows "\<exists>s'. exec (round_AVR sbox) s = Some s'
     \<and> cells_top_AVR s' = skinny_round sbox (take 8 (drop (unat (ptrZ s)) (avr_rk s))) (cells_top_AVR s)
     \<and> ptrX s' = ptrX s \<and> ptrZ s' = ptrZ s + 8 \<and> reg8 s' 24 = reg8 s 24
     \<and> reg8 s' 25 = 0x02 \<and> avr_block s' = avr_block s \<and> avr_rk s' = avr_rk s
     \<and> avr_rk_reads s' = avr_rk_reads s @ [unat (ptrZ s) ..< unat (ptrZ s) + 8]"
  using assms unat_ptr16_add[OF assms(3)]
  apply (simp add: round_AVR_def SubCells_AVR_def AddRoundTweakey_AVR_def
      MixColumns_AVR_def avr_instr_defs cells_top_AVR_def
      skinny_round_def MixColumns_def rotate_rows_def MixColumns_xors_def ShiftRows_def
      AddRoundTweakey_def SubCells_def upt8)
  done

lemma iteration_AVR_cells:
  assumes "reg8 s 25 = 0x02" "unat (ptrZ s) + 8 \<le> length (avr_rk s)"
    "unat (ptrZ s) + 8 < 65536"
  shows "\<exists>s'. iteration_AVR sbox s = Some s'
     \<and> cells_top_AVR s' = skinny_round sbox (take 8 (drop (unat (ptrZ s)) (avr_rk s))) (cells_top_AVR s)
     \<and> ptrX s' = ptrX s \<and> ptrZ s' = ptrZ s + 8 \<and> reg8 s' 24 = reg8 s 24 - 1
     \<and> reg8 s' 25 = 0x02 \<and> avr_block s' = avr_block s \<and> avr_rk s' = avr_rk s
     \<and> avr_rk_reads s' = avr_rk_reads s @ [unat (ptrZ s) ..< unat (ptrZ s) + 8]"
proof -
  from round_AVR_cells[OF assms, of sbox]
  obtain t where t: "exec (round_AVR sbox) s = Some t"
     "cells_top_AVR t = skinny_round sbox (take 8 (drop (unat (ptrZ s)) (avr_rk s))) (cells_top_AVR s)"
     "ptrX t = ptrX s" "ptrZ t = ptrZ s + 8" "reg8 t 24 = reg8 s 24"
     "reg8 t 25 = 0x02" "avr_block t = avr_block s" "avr_rk t = avr_rk s"
     "avr_rk_reads t = avr_rk_reads s @ [unat (ptrZ s) ..< unat (ptrZ s) + 8]"
    by blast
  then show ?thesis
    by (simp add: iteration_AVR_def exec_append dec_def set_reg8_def cells_top_AVR_def)
qed

lemma repeat_iteration_AVR:
  assumes "reg8 s 25 = 0x02" "unat (ptrZ s) + 8 * n \<le> length (avr_rk s)"
    "unat (ptrZ s) + 8 * n < 65536"
  shows "\<exists>s'. repeat_opt n (iteration_AVR sbox) s = Some s'
     \<and> cells_top_AVR s' = skinny_rounds sbox n (drop (unat (ptrZ s)) (avr_rk s)) (cells_top_AVR s)
     \<and> ptrX s' = ptrX s \<and> unat (ptrZ s') = unat (ptrZ s) + 8 * n
     \<and> reg8 s' 24 = reg8 s 24 - of_nat n
     \<and> reg8 s' 25 = 0x02 \<and> avr_block s' = avr_block s \<and> avr_rk s' = avr_rk s
     \<and> avr_rk_reads s' = avr_rk_reads s @ [unat (ptrZ s) ..< unat (ptrZ s) + 8 * n]"
  using assms
proof (induction n arbitrary: s)
  case 0
  then show ?case by simp
next
  case (Suc n)
  let ?a = "unat (ptrZ s)"
  from Suc.prems have a8: "?a + 8 \<le> length (avr_rk s)" "?a + 8 < 65536" by simp_all
  from iteration_AVR_cells[OF Suc.prems(1) a8, of sbox]
  obtain t where t: "iteration_AVR sbox s = Some t"
     "cells_top_AVR t = skinny_round sbox (take 8 (drop ?a (avr_rk s))) (cells_top_AVR s)"
     "ptrX t = ptrX s" "ptrZ t = ptrZ s + 8" "reg8 t 24 = reg8 s 24 - 1"
     "reg8 t 25 = 0x02" "avr_block t = avr_block s" "avr_rk t = avr_rk s"
     "avr_rk_reads t = avr_rk_reads s @ [?a ..< ?a + 8]"
    by blast
  have ua: "unat (ptrZ t) = ?a + 8"
    using unat_ptr16_add(8)[OF a8(2)] by (simp add: t(4) add.commute)
  from Suc.prems ua t have p: "reg8 t 25 = 0x02" "unat (ptrZ t) + 8 * n \<le> length (avr_rk t)"
    "unat (ptrZ t) + 8 * n < 65536" by simp_all
  from Suc.IH[OF p] obtain s' where s': "repeat_opt n (iteration_AVR sbox) t = Some s'"
     "cells_top_AVR s' = skinny_rounds sbox n (drop (unat (ptrZ t)) (avr_rk t)) (cells_top_AVR t)"
     "ptrX s' = ptrX t" "unat (ptrZ s') = unat (ptrZ t) + 8 * n"
     "reg8 s' 24 = reg8 t 24 - of_nat n"
     "reg8 s' 25 = 0x02" "avr_block s' = avr_block t" "avr_rk s' = avr_rk t"
     "avr_rk_reads s' = avr_rk_reads t @ [unat (ptrZ t) ..< unat (ptrZ t) + 8 * n]"
    by blast
  have upt: "[?a ..< ?a + 8] @ [?a + 8 ..< ?a + 8 + 8 * n] = [?a ..< ?a + 8 * Suc n]"
    by (metis add.assoc le_add1 mult_Suc_right upt_add_eq_append)
  show ?case
    using t s' ua upt by (simp add: drop_drop add.commute)
qed

lemma enc_loop_AVR_repeat:
  assumes "reg8 s 24 = of_nat n" "0 < n" "n < 2 ^ 8"
  shows "enc_loop_AVR sbox s = repeat_opt n (iteration_AVR sbox) s"
  using assms
proof (induction n arbitrary: s)
  case 0
  then show ?case by simp
next
  case (Suc n)
  show ?case
  proof (cases "iteration_AVR sbox s")
    case None
    then show ?thesis by (subst enc_loop_AVR.simps) simp
  next
    case (Some t)
    from iteration_AVR_r24[OF Some] Suc.prems(1) have r: "reg8 t 24 = of_nat n" by simp
    show ?thesis
    proof (cases "n = 0")
      case True
      with Some r show ?thesis by (subst enc_loop_AVR.simps) simp
    next
      case False
      with Suc.prems have n: "0 < n" "n < 2 ^ 8" by simp_all
      then have "(of_nat n :: byte) \<noteq> 0"
        by (intro of_nat_neq_0) simp_all
      with Some r Suc.IH[OF r n] show ?thesis by (subst enc_loop_AVR.simps) simp
    qed
  qed
qed

lemma load_AVR_cells:
  assumes "length block = 16"
  shows "\<exists>s1. exec load_AVR (avr_entry rs block roundKeys) = Some s1
    \<and> cells_top_AVR s1 = block \<and> ptrX s1 = 15 \<and> ptrZ s1 = 0 \<and> reg8 s1 24 = 40
    \<and> reg8 s1 25 = 0x02 \<and> avr_block s1 = block \<and> avr_rk s1 = roundKeys
    \<and> avr_rk_reads s1 = []"
  using assms list16[OF assms]
  by (simp add: avr_entry_def load_AVR_def avr_instr_defs cells_top_AVR_def
      numeral_2_eq_2[symmetric])

lemma store_AVR_cells:
  assumes "ptrX s = 15" "length (avr_block s) = 16"
  shows "exec store_AVR s = Some (s\<lparr>avr_block := cells_top_AVR s, ptrX := 0\<rparr>)"
proof -
  from list16[OF assms(2)] obtain x0 x1 x2 x3 x4 x5 x6 x7 x8 x9 x10 x11 x12 x13 x14 x15
    where "avr_block s = [x0, x1, x2, x3, x4, x5, x6, x7, x8, x9, x10, x11, x12, x13, x14, x15]"
    by metis
  with assms(1) show ?thesis
    by (simp add: store_AVR_def avr_instr_defs cells_top_AVR_def)
qed

lemma Encrypt_AVR_run:
  assumes "length block = 16" "320 \<le> length roundKeys"
  shows "\<exists>s'. Encrypt_AVR sbox (avr_entry rs block roundKeys) = Some s'
     \<and> avr_block s' = skinny_encrypt sbox block roundKeys
     \<and> avr_rk s' = roundKeys \<and> avr_rk_reads s' = [0 ..< 320]"
proof -
  from load_AVR_cells[OF assms(1), of rs roundKeys] obtain s1 where
    s1: "exec load_AVR (avr_entry rs block roundKeys) = Some s1"
      "cells_top_AVR s1 = block" "ptrX s1 = 15" "ptrZ s1 = 0" "reg8 s1 24 = 40"
      "reg8 s1 25 = 0x02" "avr_block s1 = block" "avr_rk s1 = roundKeys" "avr_rk_reads s1 = []"
    by blast
  have loop: "enc_loop_AVR sbox s1 = repeat_opt 40 (iteration_AVR sbox) s1"
    by (rule enc_loop_AVR_repeat) (simp_all add: s1)
  have "\<exists>s2. repeat_opt 40 (iteration_AVR sbox) s1 = Some s2
     \<and> cells_top_AVR s2 = skinny_rounds sbox 40 (drop (unat (ptrZ s1)) (avr_rk s1)) (cells_top_AVR s1)
     \<and> ptrX s2 = ptrX s1 \<and> unat (ptrZ s2) = unat (ptrZ s1) + 8 * 40
     \<and> reg8 s2 24 = reg8 s1 24 - of_nat 40
     \<and> reg8 s2 25 = 0x02 \<and> avr_block s2 = avr_block s1 \<and> avr_rk s2 = avr_rk s1
     \<and> avr_rk_reads s2 = avr_rk_reads s1 @ [unat (ptrZ s1) ..< unat (ptrZ s1) + 8 * 40]"
    by (rule repeat_iteration_AVR) (use assms s1 in simp_all)
  then obtain s2 where s2: "repeat_opt 40 (iteration_AVR sbox) s1 = Some s2"
     "cells_top_AVR s2 = skinny_rounds sbox 40 roundKeys block"
     "ptrX s2 = 15" "avr_block s2 = block" "avr_rk s2 = roundKeys"
     "avr_rk_reads s2 = [0 ..< 320]"
    using s1 by auto
  have "exec store_AVR s2 = Some (s2\<lparr>avr_block := cells_top_AVR s2, ptrX := 0\<rparr>)"
    by (rule store_AVR_cells) (simp_all add: s2 assms)
  then show ?thesis
    using s1(1) loop s2 by (simp add: Encrypt_AVR_def skinny_encrypt_def)
qed


lemma SubCells_AVR_cells:
  "\<exists>s'. exec (SubCells_AVR sbox) s = Some s'
     \<and> cells_mid_AVR s' = SubCells sbox (cells_top_AVR s)
     \<and> ptrX s' = ptrX s \<and> ptrZ s' = ptrZ s \<and> reg8 s' 24 = reg8 s 24
     \<and> reg8 s' 25 = reg8 s 25 \<and> avr_block s' = avr_block s \<and> avr_rk s' = avr_rk s
     \<and> avr_rk_reads s' = avr_rk_reads s"
  by (simp add: SubCells_AVR_def avr_instr_defs cells_top_AVR_def cells_mid_AVR_def SubCells_def)

lemma AddRoundTweakey_AVR_cells:
  assumes "reg8 s 25 = 0x02" "unat (ptrZ s) + 8 \<le> length (avr_rk s)"
    "unat (ptrZ s) + 8 < 65536"
  shows "\<exists>s'. exec AddRoundTweakey_AVR s = Some s'
     \<and> cells_mid_AVR s' = AddRoundTweakey (take 8 (drop (unat (ptrZ s)) (avr_rk s))) (cells_mid_AVR s)
     \<and> ptrX s' = ptrX s \<and> ptrZ s' = ptrZ s + 8 \<and> reg8 s' 24 = reg8 s 24
     \<and> reg8 s' 25 = reg8 s 25 \<and> avr_block s' = avr_block s \<and> avr_rk s' = avr_rk s
     \<and> avr_rk_reads s' = avr_rk_reads s @ [unat (ptrZ s) ..< unat (ptrZ s) + 8]"
  using assms unat_ptr16_add[OF assms(3)]
  by (simp add: AddRoundTweakey_AVR_def avr_instr_defs cells_mid_AVR_def AddRoundTweakey_def upt8)

lemma MixColumns_AVR_cells:
  "\<exists>s'. exec MixColumns_AVR s = Some s'
     \<and> cells_top_AVR s' = MixColumns (ShiftRows (cells_mid_AVR s))
     \<and> ptrX s' = ptrX s \<and> ptrZ s' = ptrZ s \<and> reg8 s' 24 = reg8 s 24
     \<and> reg8 s' 25 = reg8 s 25 \<and> avr_block s' = avr_block s \<and> avr_rk s' = avr_rk s
     \<and> avr_rk_reads s' = avr_rk_reads s"
  by (simp add: MixColumns_AVR_def avr_instr_defs cells_top_AVR_def cells_mid_AVR_def
      MixColumns_def rotate_rows_def MixColumns_xors_def ShiftRows_def)

subsection \<open>The MSP body computes the rounds on the cells\<close>

lemma bit_le16: "bit (le16 a b) n \<longleftrightarrow> (if n < 8 then bit a n else bit b (n - 8))"
  apply (simp add: le16_def bit_simps)
  apply (auto dest: bit_imp_le_length)
  done

lemma lo8_le16: "lo8 (le16 a b) = a"
  by (rule bit_word_eqI) (simp add: lo8_def bit_simps bit_le16)

lemma hi8_le16: "hi8 (le16 a b) = b"
  by (rule bit_word_eqI) (simp add: hi8_def bit_simps bit_le16)

lemma le16_bytes: "le16 (lo8 w) (hi8 w) = w"
  apply (rule bit_word_eqI)
  apply (simp add: bit_simps bit_le16 lo8_def hi8_def)
  apply (auto dest: bit_imp_le_length)?
  done

lemma xor_le16: "le16 a b XOR le16 c d = le16 (a XOR c) (b XOR d)"
  by (rule bit_word_eqI) (simp add: bit_simps bit_le16)

lemma lo8_ucast: "lo8 (ucast (a::byte)) = a"
  by (rule bit_word_eqI) (simp add: lo8_def bit_simps)

lemma ucast_ucast_byte16: "(ucast (ucast (a::byte) :: 16 word) :: byte) = a"
  by (rule bit_word_eqI) (simp add: bit_simps)

lemma unat_ucast_byte16: "unat (ucast (a::byte) :: 16 word) < 256"
proof -
  have "unat a < 256" using unsigned_less[of a, where 'a=nat] by simp
  then have "take_bit 16 (unat a) < 256"
    by (rule le_less_trans[OF take_bit_nat_less_eq_self])
  then show ?thesis by (simp add: unsigned_ucast_eq)
qed

lemmas le16_simps = lo8_le16 hi8_le16 xor_le16 lo8_ucast ucast_ucast_byte16 unat_ucast_byte16

lemma round_MSP_le16:
  assumes "reg16 s 4 = le16 a0 a1" "reg16 s 5 = le16 a2 a3" "reg16 s 6 = le16 a4 a5"
    "reg16 s 7 = le16 a6 a7" "reg16 s 8 = le16 a8 a9" "reg16 s 9 = le16 a10 a11"
    "reg16 s 10 = le16 a12 a13" "reg16 s 11 = le16 a14 a15"
    "reg16 s 15 = 0"
    "msp_block s = [x0, x1, x2, x3, x4, x5, x6, x7, x8, x9, x10, x11, x12, x13, x14, x15]"
    "unat (reg16 s 14) + 8 \<le> length (msp_rk s)" "unat (reg16 s 14) + 8 < 65536"
  shows "\<exists>s'. exec (round_MSP sbox) s = Some s'
     \<and> cells_MSP s' = skinny_round sbox (take 8 (drop (unat (reg16 s 14)) (msp_rk s)))
          [a0, a1, a2, a3, a4, a5, a6, a7, a8, a9, a10, a11, a12, a13, a14, a15]
     \<and> reg16 s' 15 = 0 \<and> reg16 s' 14 = reg16 s 14 + 8 \<and> reg16 s' 13 = reg16 s 13
     \<and> length (msp_block s') = 16 \<and> msp_rk s' = msp_rk s
     \<and> msp_rk_reads s' = msp_rk_reads s @ [unat (reg16 s 14) ..< unat (reg16 s 14) + 8]"
  using assms unat_ptr16_add[OF assms(12)]
  by (simp add: round_MSP_def SubCells_AddRoundTweakey_ShiftRows_MSP_def MixColumns_MSP_def
      msp_instr_defs le16_simps cells_MSP_def Let_def
      skinny_round_def MixColumns_def rotate_rows_def MixColumns_xors_def ShiftRows_def
      AddRoundTweakey_def SubCells_def upt8)

lemma list16_obtain:
  assumes "length xs = 16"
  obtains x0 x1 x2 x3 x4 x5 x6 x7 x8 x9 x10 x11 x12 x13 x14 x15
  where "xs = [x0, x1, x2, x3, x4, x5, x6, x7, x8, x9, x10, x11, x12, x13, x14, x15]"
  using list16[OF assms] by metis

lemma round_MSP_cells:
  assumes "reg16 s 15 = 0" "length (msp_block s) = 16"
    "unat (reg16 s 14) + 8 \<le> length (msp_rk s)" "unat (reg16 s 14) + 8 < 65536"
  shows "\<exists>s'. exec (round_MSP sbox) s = Some s'
     \<and> cells_MSP s' = skinny_round sbox (take 8 (drop (unat (reg16 s 14)) (msp_rk s))) (cells_MSP s)
     \<and> reg16 s' 15 = 0 \<and> reg16 s' 14 = reg16 s 14 + 8 \<and> reg16 s' 13 = reg16 s 13
     \<and> length (msp_block s') = 16 \<and> msp_rk s' = msp_rk s
     \<and> msp_rk_reads s' = msp_rk_reads s @ [unat (reg16 s 14) ..< unat (reg16 s 14) + 8]"
proof -
  from list16_obtain[OF assms(2)] obtain x0 x1 x2 x3 x4 x5 x6 x7 x8 x9 x10 x11 x12 x13 x14 x15
    where xs: "msp_block s = [x0, x1, x2, x3, x4, x5, x6, x7, x8, x9, x10, x11, x12, x13, x14, x15]"
    by blast
  show ?thesis
    using round_MSP_le16[OF le16_bytes[symmetric] le16_bytes[symmetric] le16_bytes[symmetric]
      le16_bytes[symmetric] le16_bytes[symmetric] le16_bytes[symmetric] le16_bytes[symmetric]
      le16_bytes[symmetric] assms(1) xs assms(3,4), of sbox]
    by (simp add: cells_MSP_def)
qed

lemma iteration_MSP_cells:
  assumes "reg16 s 15 = 0" "length (msp_block s) = 16"
    "unat (reg16 s 14) + 8 \<le> length (msp_rk s)" "unat (reg16 s 14) + 8 < 65536"
  shows "\<exists>s'. iteration_MSP sbox s = Some s'
     \<and> cells_MSP s' = skinny_round sbox (take 8 (drop (unat (reg16 s 14)) (msp_rk s))) (cells_MSP s)
     \<and> reg16 s' 15 = 0 \<and> reg16 s' 14 = reg16 s 14 + 8 \<and> reg16 s' 13 = reg16 s 13 - 1
     \<and> length (msp_block s') = 16 \<and> msp_rk s' = msp_rk s
     \<and> msp_rk_reads s' = msp_rk_reads s @ [unat (reg16 s 14) ..< unat (reg16 s 14) + 8]"
proof -
  from round_MSP_cells[OF assms, of sbox]
  obtain t where t: "exec (round_MSP sbox) s = Some t"
     "cells_MSP t = skinny_round sbox (take 8 (drop (unat (reg16 s 14)) (msp_rk s))) (cells_MSP s)"
     "reg16 t 15 = 0" "reg16 t 14 = reg16 s 14 + 8" "reg16 t 13 = reg16 s 13"
     "length (msp_block t) = 16" "msp_rk t = msp_rk s"
     "msp_rk_reads t = msp_rk_reads s @ [unat (reg16 s 14) ..< unat (reg16 s 14) + 8]"
    by blast
  then show ?thesis
    by (simp add: iteration_MSP_def exec_append dec16_def set_reg16_def cells_MSP_def)
qed

lemma repeat_iteration_MSP:
  assumes "reg16 s 15 = 0" "length (msp_block s) = 16"
    "unat (reg16 s 14) + 8 * n \<le> length (msp_rk s)" "unat (reg16 s 14) + 8 * n < 65536"
  shows "\<exists>s'. repeat_opt n (iteration_MSP sbox) s = Some s'
     \<and> cells_MSP s' = skinny_rounds sbox n (drop (unat (reg16 s 14)) (msp_rk s)) (cells_MSP s)
     \<and> reg16 s' 15 = 0 \<and> unat (reg16 s' 14) = unat (reg16 s 14) + 8 * n
     \<and> reg16 s' 13 = reg16 s 13 - of_nat n
     \<and> length (msp_block s') = 16 \<and> msp_rk s' = msp_rk s
     \<and> msp_rk_reads s' = msp_rk_reads s @ [unat (reg16 s 14) ..< unat (reg16 s 14) + 8 * n]"
  using assms
proof (induction n arbitrary: s)
  case 0
  then show ?case by simp
next
  case (Suc n)
  let ?a = "unat (reg16 s 14)"
  from Suc.prems have a8: "?a + 8 \<le> length (msp_rk s)" "?a + 8 < 65536" by simp_all
  from iteration_MSP_cells[OF Suc.prems(1,2) a8, of sbox]
  obtain t where t: "iteration_MSP sbox s = Some t"
     "cells_MSP t = skinny_round sbox (take 8 (drop ?a (msp_rk s))) (cells_MSP s)"
     "reg16 t 15 = 0" "reg16 t 14 = reg16 s 14 + 8" "reg16 t 13 = reg16 s 13 - 1"
     "length (msp_block t) = 16" "msp_rk t = msp_rk s"
     "msp_rk_reads t = msp_rk_reads s @ [?a ..< ?a + 8]"
    by blast
  have ua: "unat (reg16 t 14) = ?a + 8"
    using unat_ptr16_add(8)[OF a8(2)] by (simp add: t(4) add.commute)
  from Suc.prems ua t have p: "reg16 t 15 = 0" "length (msp_block t) = 16"
    "unat (reg16 t 14) + 8 * n \<le> length (msp_rk t)"
    "unat (reg16 t 14) + 8 * n < 65536" by simp_all
  from Suc.IH[OF p] obtain s' where s': "repeat_opt n (iteration_MSP sbox) t = Some s'"
     "cells_MSP s' = skinny_rounds sbox n (drop (unat (reg16 t 14)) (msp_rk t)) (cells_MSP t)"
     "reg16 s' 15 = 0" "unat (reg16 s' 14) = unat (reg16 t 14) + 8 * n"
     "reg16 s' 13 = reg16 t 13 - of_nat n"
     "length (msp_block s') = 16" "msp_rk s' = msp_rk t"
     "msp_rk_reads s' = msp_rk_reads t @ [unat (reg16 t 14) ..< unat (reg16 t 14) + 8 * n]"
    by blast
  have upt: "[?a ..< ?a + 8] @ [?a + 8 ..< ?a + 8 + 8 * n] = [?a ..< ?a + 8 * Suc n]"
    by (metis add.assoc le_add1 mult_Suc_right upt_add_eq_append)
  show ?case
    using t s' ua upt by (simp add: drop_drop add.commute)
qed

lemma enc_loop_MSP_repeat:
  assumes "reg16 s 13 = of_nat n" "0 < n" "n < 2 ^ 16"
  shows "enc_loop_MSP sbox s = repeat_opt n (iteration_MSP sbox) s"
  using assms
proof (induction n arbitrary: s)
  case 0
  then show ?case by simp
next
  case (Suc n)
  show ?case
  proof (cases "iteration_MSP sbox s")
    case None
    then show ?thesis by (subst enc_loop_MSP.simps) simp
  next
    case (Some t)
    from iteration_MSP_r13[OF Some] Suc.prems(1) have r: "reg16 t 13 = of_nat n" by simp
    show ?thesis
    proof (cases "n = 0")
      case True
      with Some r show ?thesis by (subst enc_loop_MSP.simps) simp
    next
      case False
      with Suc.prems have n: "0 < n" "n < 2 ^ 16" by simp_all
      then have "(of_nat n :: 16 word) \<noteq> 0"
        by (intro of_nat_neq_0) simp_all
      with Some r Suc.IH[OF r n] show ?thesis by (subst enc_loop_MSP.simps) simp
    qed
  qed
qed

lemma load_MSP_cells:
  assumes "length block = 16"
  shows "\<exists>s1. exec load_MSP (msp_entry rs block roundKeys) = Some s1
    \<and> cells_MSP s1 = block \<and> reg16 s1 15 = 0 \<and> reg16 s1 14 = 0 \<and> reg16 s1 13 = 40
    \<and> msp_block s1 = block \<and> msp_rk s1 = roundKeys \<and> msp_rk_reads s1 = []"
  using assms list16[OF assms]
  by (simp add: msp_entry_def load_MSP_def msp_instr_defs cells_MSP_def le16_simps
      numeral_2_eq_2[symmetric])

lemma store_MSP_cells:
  assumes "reg16 s 15 = 0" "length (msp_block s) = 16"
  shows "exec store_MSP s = Some (s\<lparr>msp_block := cells_MSP s\<rparr>)"
proof -
  from list16_obtain[OF assms(2)] obtain x0 x1 x2 x3 x4 x5 x6 x7 x8 x9 x10 x11 x12 x13 x14 x15
    where "msp_block s = [x0, x1, x2, x3, x4, x5, x6, x7, x8, x9, x10, x11, x12, x13, x14, x15]"
    by blast
  with assms(1) show ?thesis
    by (simp add: store_MSP_def msp_instr_defs cells_MSP_def)
qed

lemma Encrypt_MSP_run:
  assumes "length block = 16" "320 \<le> length roundKeys"
  shows "\<exists>s'. Encrypt_MSP sbox (msp_entry rs block roundKeys) = Some s'
     \<and> msp_block s' = skinny_encrypt sbox block roundKeys
     \<and> msp_rk s' = roundKeys \<and> msp_rk_reads s' = [0 ..< 320]"
proof -
  from load_MSP_cells[OF assms(1), of rs roundKeys] obtain s1 where
    s1: "exec load_MSP (msp_entry rs block roundKeys) = Some s1"
      "cells_MSP s1 = block" "reg16 s1 15 = 0" "reg16 s1 14 = 0" "reg16 s1 13 = 40"
      "msp_block s1 = block" "msp_rk s1 = roundKeys" "msp_rk_reads s1 = []"
    by blast
  have loop: "enc_loop_MSP sbox s1 = repeat_opt 40 (iteration_MSP sbox) s1"
    by (rule enc_loop_MSP_repeat) (simp_all add: s1)
  have "\<exists>s2. repeat_opt 40 (iteration_MSP sbox) s1 = Some s2
     \<and> cells_MSP s2 = skinny_rounds sbox 40 (drop (unat (reg16 s1 14)) (msp_rk s1)) (cells_MSP s1)
     \<and> reg16 s2 15 = 0 \<and> unat (reg16 s2 14) = unat (reg16 s1 14) + 8 * 40
     \<and> reg16 s2 13 = reg16 s1 13 - of_nat 40
     \<and> length (msp_block s2) = 16 \<and> msp_rk s2 = msp_rk s1
     \<and> msp_rk_reads s2 = msp_rk_reads s1 @ [unat (reg16 s1 14) ..< unat (reg16 s1 14) + 8 * 40]"
    by (rule repeat_iteration_MSP) (use assms s1 in simp_all)
  then obtain s2 where s2: "repeat_opt 40 (iteration_MSP sbox) s1 = Some s2"
     "cells_MSP s2 = skinny_rounds sbox 40 roundKeys block"
     "reg16 s2 15 = 0" "length (msp_block s2) = 16" "msp_rk s2 = roundKeys"
     "msp_rk_reads s2 = [0 ..< 320]"
    using s1 by auto
  have "exec store_MSP s2 = Some (s2\<lparr>msp_block := cells_MSP s2\<rparr>)"
    by (rule store_MSP_cells) (simp_all add: s2)
  then show ?thesis
    using s1(1) loop s2 by (simp add: Encrypt_MSP_def skinny_encrypt_def)
qed


lemma SART_MSP_le16:
  assumes "reg16 s 4 = le16 a0 a1" "reg16 s 5 = le16 a2 a3" "reg16 s 6 = le16 a4 a5"
    "reg16 s 7 = le16 a6 a7" "reg16 s 8 = le16 a8 a9" "reg16 s 9 = le16 a10 a11"
    "reg16 s 10 = le16 a12 a13" "reg16 s 11 = le16 a14 a15"
    "reg16 s 15 = 0"
    "msp_block s = [x0, x1, x2, x3, x4, x5, x6, x7, x8, x9, x10, x11, x12, x13, x14, x15]"
    "unat (reg16 s 14) + 8 \<le> length (msp_rk s)" "unat (reg16 s 14) + 8 < 65536"
  shows "\<exists>s'. exec (SubCells_AddRoundTweakey_ShiftRows_MSP sbox) s = Some s'
     \<and> msp_block s' = ShiftRows (AddRoundTweakey (take 8 (drop (unat (reg16 s 14)) (msp_rk s)))
          (SubCells sbox [a0, a1, a2, a3, a4, a5, a6, a7, a8, a9, a10, a11, a12, a13, a14, a15]))
     \<and> reg16 s' 15 = 0 \<and> reg16 s' 14 = reg16 s 14 + 8 \<and> reg16 s' 13 = reg16 s 13
     \<and> msp_rk s' = msp_rk s
     \<and> msp_rk_reads s' = msp_rk_reads s @ [unat (reg16 s 14) ..< unat (reg16 s 14) + 8]"
  using assms unat_ptr16_add[OF assms(12)]
  by (simp add: SubCells_AddRoundTweakey_ShiftRows_MSP_def
      msp_instr_defs le16_simps Let_def ShiftRows_def AddRoundTweakey_def SubCells_def upt8)

lemma SART_MSP_cells:
  assumes "reg16 s 15 = 0" "length (msp_block s) = 16"
    "unat (reg16 s 14) + 8 \<le> length (msp_rk s)" "unat (reg16 s 14) + 8 < 65536"
  shows "\<exists>s'. exec (SubCells_AddRoundTweakey_ShiftRows_MSP sbox) s = Some s'
     \<and> msp_block s' = ShiftRows (AddRoundTweakey (take 8 (drop (unat (reg16 s 14)) (msp_rk s)))
          (SubCells sbox (cells_MSP s)))
     \<and> reg16 s' 15 = 0 \<and> reg16 s' 14 = reg16 s 14 + 8 \<and> reg16 s' 13 = reg16 s 13
     \<and> msp_rk s' = msp_rk s
     \<and> msp_rk_reads s' = msp_rk_reads s @ [unat (reg16 s 14) ..< unat (reg16 s 14) + 8]"
proof -
  from list16_obtain[OF assms(2)] obtain x0 x1 x2 x3 x4 x5 x6 x7 x8 x9 x10 x11 x12 x13 x14 x15
    where xs: "msp_block s = [x0, x1, x2, x3, x4, x5, x6, x7, x8, x9, x10, x11, x12, x13, x14, x15]"
    by blast
  show ?thesis
    using SART_MSP_le16[OF le16_bytes[symmetric] le16_bytes[symmetric] le16_bytes[symmetric]
      le16_bytes[symmetric] le16_bytes[symmetric] le16_bytes[symmetric] le16_bytes[symmetric]
      le16_bytes[symmetric] assms(1) xs assms(3,4), of sbox]
    by (simp add: cells_MSP_def)
qed

lemma MixColumns_MSP_cells:
  assumes "reg16 s 15 = 0" "length (msp_block s) = 16"
  shows "\<exists>s'. exec MixColumns_MSP s = Some s'
     \<and> cells_MSP s' = MixColumns (msp_block s)
     \<and> reg16 s' 15 = 0 \<and> reg16 s' 14 = reg16 s 14 \<and> reg16 s' 13 = reg16 s 13
     \<and> msp_block s' = msp_block s \<and> msp_rk s' = msp_rk s
     \<and> msp_rk_reads s' = msp_rk_reads s"
proof -
  from list16_obtain[OF assms(2)] obtain x0 x1 x2 x3 x4 x5 x6 x7 x8 x9 x10 x11 x12 x13 x14 x15
    where xs: "msp_block s = [x0, x1, x2, x3, x4, x5, x6, x7, x8, x9, x10, x11, x12, x13, x14, x15]"
    by blast
  with assms(1) show ?thesis
    by (simp add: MixColumns_MSP_def msp_instr_defs le16_simps Let_def cells_MSP_def
      MixColumns_def rotate_rows_def MixColumns_xors_def)
qed

subsection \<open>Facts about the steps on the cells\<close>

lemma length_skinny_round: "length (skinny_round sbox k st) = 16"
  by (simp add: skinny_round_def MixColumns_def rotate_rows_def)

lemma length_skinny_rounds:
  "length st = 16 \<Longrightarrow> length (skinny_rounds sbox n ks st) = 16"
  by (induction n arbitrary: ks st) (simp_all add: length_skinny_round)

lemma fold_sub_cell:
  assumes "distinct is" "\<forall>i\<in>set is. i < length st"
  shows "fold (sub_cell sbox) is st
     = map (\<lambda>i. if i \<in> set is then sbox (st ! i) else st ! i) [0..<length st]"
  using assms
proof (induction "is" arbitrary: st)
  case Nil
  then show ?case by (simp add: map_nth)
next
  case (Cons i "is")
  let ?st = "sub_cell sbox i st"
  have len: "length ?st = length st" by (simp add: sub_cell_def)
  from Cons.prems have d: "distinct is" "\<forall>j\<in>set is. j < length ?st" "i \<notin> set is" "i < length st"
    by (simp_all add: len)
  have "fold (sub_cell sbox) (i # is) st = fold (sub_cell sbox) is ?st" by simp
  also have "\<dots> = map (\<lambda>j. if j \<in> set is then sbox (?st ! j) else ?st ! j) [0..<length ?st]"
    by (rule Cons.IH[OF d(1,2)])
  also have "\<dots> = map (\<lambda>j. if j \<in> set (i # is) then sbox (st ! j) else st ! j) [0..<length st]"
    using d(3,4) by (auto simp: sub_cell_def len nth_list_update)
  finally show ?case .
qed

lemma fold_sub_cell_all:
  assumes "distinct is" "set is = {0..<length st}"
  shows "fold (sub_cell sbox) is st = map sbox st"
proof -
  have "fold (sub_cell sbox) is st
     = map (\<lambda>i. if i \<in> set is then sbox (st ! i) else st ! i) [0..<length st]"
    by (rule fold_sub_cell) (use assms in auto)
  also have "\<dots> = map (\<lambda>i. sbox (st ! i)) [0..<length st]"
    using assms(2) by (intro map_cong) auto
  also have "\<dots> = map sbox (map ((!) st) [0..<length st])" by simp
  also have "\<dots> = map sbox st" by (simp only: map_nth)
  finally show ?thesis .
qed

lemma MixColumns_columns:
  assumes "length st = 16" "length st' = 16" "j < 4"
    "\<forall>i<16. i mod 4 \<noteq> j \<longrightarrow> st ! i = st' ! i"
  shows "\<forall>i<16. i mod 4 \<noteq> j \<longrightarrow> MixColumns st ! i = MixColumns st' ! i"
proof -
  from assms(3) have "j = 0 \<or> j = 1 \<or> j = 2 \<or> j = 3" by arith
  then show ?thesis
    using assms(4) unfolding all_less_16 upt16
    by (elim disjE) (simp_all add: MixColumns_def rotate_rows_def MixColumns_xors_def)
qed

subsection \<open>Facts about single cells and the round counter\<close>

lemma upt8': "[0..<8] = [0, 1, 2, 3, 4, 5, 6, 7]"
  by code_simp

lemma all_less_8: "(\<forall>n<8. P n) \<longleftrightarrow> list_all P [0..<8]"
  by (auto simp add: list_all_iff)

lemma AddRoundTweakey_nth:
  "(\<forall>i<8. AddRoundTweakey k st ! i = st ! i XOR k ! i)
   \<and> AddRoundTweakey k st ! 8 = st ! 8 XOR 0x02
   \<and> (\<forall>i<16. 8 < i \<longrightarrow> AddRoundTweakey k st ! i = st ! i)"
  unfolding all_less_8 all_less_16 upt16 upt8'
  by (simp add: AddRoundTweakey_def)

lemma chunk_nth:
  assumes "a + 8 \<le> length ks" "i < 8"
  shows "take 8 (drop a ks) ! i = ks ! (a + i)"
  using assms by simp

lemma ShiftRows_nth:
  "\<forall>k<4. \<forall>j<4. ShiftRows st ! (4 * k + j) = st ! (4 * k + (j + 4 - k) mod 4)"
proof -
  have "[0..<4] = [0, 1, 2, 3]" by code_simp
  moreover have "\<And>P. (\<forall>n<4. P n) \<longleftrightarrow> list_all P [0..<4]"
    by (auto simp add: list_all_iff)
  ultimately show ?thesis
    by (simp add: ShiftRows_def numeral_2_eq_2[symmetric])
qed

lemma counter_ARM:
  assumes "r \<le> 40"
  shows "(40 :: 32 word) - of_nat r = 0 \<longleftrightarrow> r = 40"
proof -
  have "(40 :: 32 word) - of_nat r = of_nat (40 - r)"
    using assms by (simp add: of_nat_diff)
  moreover have "(of_nat (40 - r) :: 32 word) \<noteq> 0" if "r \<noteq> 40"
    using assms that by (intro of_nat_neq_0) simp_all
  ultimately show ?thesis by auto
qed

section \<open>The properties of Encrypt\<close>

text \<open>
  C1. For every 16-byte block and every round-key buffer of at least 320 bytes, the ARM
  body returns with the block buffer overwritten by the result of 40 rounds of SubCells,
  AddConstants and AddRoundTweakey, ShiftRows, MixColumns on the input block, round \<open>r\<close>
  taking bytes \<open>8r .. 8r+7\<close> of the round keys. The steps are the sections of the loop body
  read on the cells (MixColumns with its move of the rows, see C3); the table is any
  256-entry table. The result is again 16 bytes.
\<close>

theorem C1_Encrypt_ARM_is_40_rounds:
  assumes "length block = 16" "320 \<le> length roundKeys"
  shows "\<exists>s'. Encrypt_ARM sbox (arm_entry rs block roundKeys) = Some s'
     \<and> block_mem s' = skinny_encrypt sbox block roundKeys
     \<and> length (block_mem s') = 16"
proof -
  from Encrypt_ARM_run[OF assms, of sbox rs] obtain s' where
    "Encrypt_ARM sbox (arm_entry rs block roundKeys) = Some s'"
    "block_mem s' = skinny_encrypt sbox block roundKeys"
    by blast
  then show ?thesis
    using assms(1) by (auto simp: skinny_encrypt_def length_skinny_rounds)
qed

text \<open>C1 on the all-zero block with the all-zero round keys of 320 bytes.\<close>

theorem C1_all_zero_witness:
  "\<forall>sbox rs. \<exists>s'. Encrypt_ARM sbox (arm_entry rs (replicate 16 0) (replicate 320 0)) = Some s'
     \<and> block_mem s' = skinny_encrypt sbox (replicate 16 0) (replicate 320 0)
     \<and> length (block_mem s') = 16"
  using C1_Encrypt_ARM_is_40_rounds[of "replicate 16 0" "replicate 320 0"] by simp

text \<open>
  C2. For every 16-byte block and every round-key buffer of at least 320 bytes, whatever
  the other registers hold at entry, the AVR, MSP and ARM bodies all return and leave the
  same 16 bytes in the block buffer.
\<close>

theorem C2_three_bodies_agree:
  assumes "length block = 16" "320 \<le> length roundKeys"
  shows "\<exists>v m a. Encrypt_AVR sbox (avr_entry rv block roundKeys) = Some v
     \<and> Encrypt_MSP sbox (msp_entry rm block roundKeys) = Some m
     \<and> Encrypt_ARM sbox (arm_entry ra block roundKeys) = Some a
     \<and> avr_block v = msp_block m \<and> msp_block m = block_mem a"
proof -
  from Encrypt_AVR_run[OF assms, of sbox rv] obtain v where
    v: "Encrypt_AVR sbox (avr_entry rv block roundKeys) = Some v"
       "avr_block v = skinny_encrypt sbox block roundKeys" by blast
  from Encrypt_MSP_run[OF assms, of sbox rm] obtain m where
    m: "Encrypt_MSP sbox (msp_entry rm block roundKeys) = Some m"
       "msp_block m = skinny_encrypt sbox block roundKeys" by blast
  from Encrypt_ARM_run[OF assms, of sbox ra] obtain a where
    a: "Encrypt_ARM sbox (arm_entry ra block roundKeys) = Some a"
       "block_mem a = skinny_encrypt sbox block roundKeys" by blast
  from v m a show ?thesis by simp
qed

theorem C2_three_bodies_agree_witness:
  "\<forall>sbox rv rm ra. \<exists>v m a.
       Encrypt_AVR sbox (avr_entry rv (replicate 16 0) (replicate 320 1)) = Some v
     \<and> Encrypt_MSP sbox (msp_entry rm (replicate 16 0) (replicate 320 1)) = Some m
     \<and> Encrypt_ARM sbox (arm_entry ra (replicate 16 0) (replicate 320 1)) = Some a
     \<and> avr_block v = msp_block m \<and> msp_block m = block_mem a"
  using C2_three_bodies_agree[of "replicate 16 0" "replicate 320 1"] by simp

text \<open>
  C3, as amended. In every body the MixColumns step does the three exclusive-ors of every
  column of the state after ShiftRows, \<open>row1 ^= row2; row2 ^= row0; row3 ^= row2\<close> with
  the updated \<open>row2\<close> in the third, and then the rows move down by one: the new row 0 is
  the updated row 3, the new row 1 is the old row 0, the new row 2 is the updated row 1 and
  the new row 3 is the updated row 2. The ARM body moves the registers (lines 490-494); the
  AVR body takes the rows (already shifted) from the registers where the next round reads
  them; the MSP body loads the rows from the block buffer into the registers of the next
  rows. Nothing else of the state changes.
\<close>

theorem C3_MixColumns_rotates_rows:
  "(\<exists>s'. exec MixColumns_ARM s = Some s'
     \<and> cells_ARM s' = rotate_rows (MixColumns_xors (cells_ARM s))
     \<and> regs s' R0 = regs s R0 \<and> regs s' R1 = regs s R1 \<and> regs s' R8 = regs s R8
     \<and> regs s' R10 = regs s R10 \<and> block_mem s' = block_mem s \<and> rk_mem s' = rk_mem s
     \<and> rk_reads s' = rk_reads s)
   \<and> (\<exists>v'. exec MixColumns_AVR v = Some v'
     \<and> cells_top_AVR v' = rotate_rows (MixColumns_xors (ShiftRows (cells_mid_AVR v)))
     \<and> ptrX v' = ptrX v \<and> ptrZ v' = ptrZ v \<and> reg8 v' 24 = reg8 v 24
     \<and> reg8 v' 25 = reg8 v 25 \<and> avr_block v' = avr_block v \<and> avr_rk v' = avr_rk v
     \<and> avr_rk_reads v' = avr_rk_reads v)
   \<and> (reg16 m 15 = 0 \<and> length (msp_block m) = 16 \<longrightarrow>
       (\<exists>m'. exec MixColumns_MSP m = Some m'
     \<and> cells_MSP m' = rotate_rows (MixColumns_xors (msp_block m))
     \<and> reg16 m' 15 = 0 \<and> reg16 m' 14 = reg16 m 14 \<and> reg16 m' 13 = reg16 m 13
     \<and> msp_block m' = msp_block m \<and> msp_rk m' = msp_rk m
     \<and> msp_rk_reads m' = msp_rk_reads m))"
  using MixColumns_ARM_cells[of s] MixColumns_AVR_cells[of v] MixColumns_MSP_cells[of m]
  by (simp add: MixColumns_def)

theorem C3_MixColumns_rotates_rows_witness:
  "\<exists>m'. exec MixColumns_MSP
        \<lparr>reg16 = (\<lambda>r. 0), msp_block = [0, 0, 0, 0, 0, 0, 0, 0, 1, 0, 0, 0, 0, 0, 0, 0],
         msp_rk = [], msp_rk_reads = []\<rparr> = Some m'
     \<and> cells_MSP m' = [1, 0, 0, 0, 0, 0, 0, 0, 1, 0, 0, 0, 1, 0, 0, 0]"
  using C3_MixColumns_rotates_rows[of _ _
      "\<lparr>reg16 = (\<lambda>r. 0), msp_block = [0, 0, 0, 0, 0, 0, 0, 0, 1, 0, 0, 0, 0, 0, 0, 0],
         msp_rk = [], msp_rk_reads = []\<rparr>"]
  by (auto simp: rotate_rows_def MixColumns_xors_def)

text \<open>
  C3, as stated, fails: with \<open>s8 = 1\<close> and every other cell 0 after ShiftRows, the three
  exclusive-ors alone give the rows \<open>0000, 1000, 1000, 1000\<close>, and the ARM code gives
  \<open>1000, 0000, 1000, 1000\<close>: row 0 has changed and the rows have moved.
\<close>

theorem C3_MixColumns_ARM_counterexample:
  "\<exists>s'. exec MixColumns_ARM
        \<lparr>regs = (\<lambda>r. 0)(R4 := 1), block_mem = [], rk_mem = [], rk_reads = []\<rparr> = Some s'
     \<and> cells_ARM \<lparr>regs = (\<lambda>r. 0)(R4 := 1), block_mem = [], rk_mem = [], rk_reads = []\<rparr>
         = [0, 0, 0, 0, 0, 0, 0, 0, 1, 0, 0, 0, 0, 0, 0, 0]
     \<and> MixColumns_xors [0, 0, 0, 0, 0, 0, 0, 0, 1, 0, 0, 0, 0, 0, 0, 0]
         = [0, 0, 0, 0, 1, 0, 0, 0, 1, 0, 0, 0, 1, 0, 0, 0]
     \<and> cells_ARM s' = [1, 0, 0, 0, 0, 0, 0, 0, 1, 0, 0, 0, 1, 0, 0, 0]
     \<and> cells_ARM s' \<noteq> MixColumns_xors [0, 0, 0, 0, 0, 0, 0, 0, 1, 0, 0, 0, 0, 0, 0, 0]"
  by (simp add: MixColumns_ARM_def arm_instr_defs cells_ARM_def word_bytes_def byte_of_def
      MixColumns_xors_def)

text \<open>
  C4. Between SubCells and ShiftRows, the ARM body and the AVR body read the 8 bytes of the
  round keys at the cursor, exclusive-or them byte for byte into the cells \<open>s0 .. s7\<close>,
  exclusive-or the constant \<open>0x02\<close> into \<open>s8\<close>, leave \<open>s9 .. s15\<close> as they are and advance
  the cursor by 8. The MSP body does the same merged with SubCells and ShiftRows: its
  section leaves ShiftRows of AddRoundTweakey of SubCells in the block buffer and advances
  the cursor by 8. From a cursor at the start of the round keys, the cursor is at byte
  \<open>8r\<close> after \<open>r\<close> passes through the loop, so that round \<open>r\<close> (from 0) takes the bytes
  \<open>8r .. 8r+7\<close>.
\<close>

theorem C4_AddRoundTweakey:
  "(unat (regs s R1) + 8 \<le> length (rk_mem s) \<longrightarrow>
      (\<exists>s'. exec AddRoundTweakey_ARM s = Some s'
        \<and> (\<forall>i<8. cells_ARM s' ! i = cells_ARM s ! i XOR rk_mem s ! (unat (regs s R1) + i))
        \<and> cells_ARM s' ! 8 = cells_ARM s ! 8 XOR 0x02
        \<and> (\<forall>i<16. 8 < i \<longrightarrow> cells_ARM s' ! i = cells_ARM s ! i)
        \<and> regs s' R1 = regs s R1 + 8
        \<and> rk_reads s' = rk_reads s @ [unat (regs s R1) ..< unat (regs s R1) + 8]
        \<and> rk_mem s' = rk_mem s \<and> block_mem s' = block_mem s))
   \<and> (reg8 v 25 = 0x02 \<and> unat (ptrZ v) + 8 \<le> length (avr_rk v) \<and> unat (ptrZ v) + 8 < 65536 \<longrightarrow>
      (\<exists>v'. exec AddRoundTweakey_AVR v = Some v'
        \<and> (\<forall>i<8. cells_mid_AVR v' ! i = cells_mid_AVR v ! i XOR avr_rk v ! (unat (ptrZ v) + i))
        \<and> cells_mid_AVR v' ! 8 = cells_mid_AVR v ! 8 XOR 0x02
        \<and> (\<forall>i<16. 8 < i \<longrightarrow> cells_mid_AVR v' ! i = cells_mid_AVR v ! i)
        \<and> ptrZ v' = ptrZ v + 8
        \<and> avr_rk_reads v' = avr_rk_reads v @ [unat (ptrZ v) ..< unat (ptrZ v) + 8]
        \<and> avr_rk v' = avr_rk v \<and> avr_block v' = avr_block v))
   \<and> (reg16 m 15 = 0 \<and> length (msp_block m) = 16
        \<and> unat (reg16 m 14) + 8 \<le> length (msp_rk m) \<and> unat (reg16 m 14) + 8 < 65536 \<longrightarrow>
      (\<exists>m'. exec (SubCells_AddRoundTweakey_ShiftRows_MSP sbox) m = Some m'
        \<and> msp_block m' = ShiftRows (AddRoundTweakey
              (take 8 (drop (unat (reg16 m 14)) (msp_rk m))) (SubCells sbox (cells_MSP m)))
        \<and> reg16 m' 14 = reg16 m 14 + 8
        \<and> msp_rk_reads m' = msp_rk_reads m @ [unat (reg16 m 14) ..< unat (reg16 m 14) + 8]
        \<and> msp_rk m' = msp_rk m))
   \<and> (regs s R10 = 0xff \<and> regs s R1 = 0 \<and> 320 \<le> length (rk_mem s) \<longrightarrow>
      (\<forall>r\<le>40. \<exists>t. repeat_opt r (iteration_ARM sbox) s = Some t \<and> unat (regs t R1) = 8 * r))"
proof (intro conjI impI)
  assume a: "unat (regs s R1) + 8 \<le> length (rk_mem s)"
  from AddRoundTweakey_ARM_cells[OF a] obtain s' where s': "exec AddRoundTweakey_ARM s = Some s'"
    "cells_ARM s' = AddRoundTweakey (take 8 (drop (unat (regs s R1)) (rk_mem s))) (cells_ARM s)"
    "regs s' R1 = regs s R1 + 8" "block_mem s' = block_mem s" "rk_mem s' = rk_mem s"
    "rk_reads s' = rk_reads s @ [unat (regs s R1) ..< unat (regs s R1) + 8]"
    by blast
  show "\<exists>s'. exec AddRoundTweakey_ARM s = Some s'
        \<and> (\<forall>i<8. cells_ARM s' ! i = cells_ARM s ! i XOR rk_mem s ! (unat (regs s R1) + i))
        \<and> cells_ARM s' ! 8 = cells_ARM s ! 8 XOR 0x02
        \<and> (\<forall>i<16. 8 < i \<longrightarrow> cells_ARM s' ! i = cells_ARM s ! i)
        \<and> regs s' R1 = regs s R1 + 8
        \<and> rk_reads s' = rk_reads s @ [unat (regs s R1) ..< unat (regs s R1) + 8]
        \<and> rk_mem s' = rk_mem s \<and> block_mem s' = block_mem s"
    using s' AddRoundTweakey_nth[of "take 8 (drop (unat (regs s R1)) (rk_mem s))" "cells_ARM s"]
      chunk_nth[OF a]
    by auto
next
  assume h: "reg8 v 25 = 0x02 \<and> unat (ptrZ v) + 8 \<le> length (avr_rk v) \<and> unat (ptrZ v) + 8 < 65536"
  then have a: "unat (ptrZ v) + 8 \<le> length (avr_rk v)" by simp
  from h AddRoundTweakey_AVR_cells[of v] obtain v' where v': "exec AddRoundTweakey_AVR v = Some v'"
    "cells_mid_AVR v' = AddRoundTweakey (take 8 (drop (unat (ptrZ v)) (avr_rk v))) (cells_mid_AVR v)"
    "ptrZ v' = ptrZ v + 8" "avr_block v' = avr_block v" "avr_rk v' = avr_rk v"
    "avr_rk_reads v' = avr_rk_reads v @ [unat (ptrZ v) ..< unat (ptrZ v) + 8]"
    by blast
  show "\<exists>v'. exec AddRoundTweakey_AVR v = Some v'
        \<and> (\<forall>i<8. cells_mid_AVR v' ! i = cells_mid_AVR v ! i XOR avr_rk v ! (unat (ptrZ v) + i))
        \<and> cells_mid_AVR v' ! 8 = cells_mid_AVR v ! 8 XOR 0x02
        \<and> (\<forall>i<16. 8 < i \<longrightarrow> cells_mid_AVR v' ! i = cells_mid_AVR v ! i)
        \<and> ptrZ v' = ptrZ v + 8
        \<and> avr_rk_reads v' = avr_rk_reads v @ [unat (ptrZ v) ..< unat (ptrZ v) + 8]
        \<and> avr_rk v' = avr_rk v \<and> avr_block v' = avr_block v"
    using v' AddRoundTweakey_nth[of "take 8 (drop (unat (ptrZ v)) (avr_rk v))" "cells_mid_AVR v"]
      chunk_nth[OF a]
    by auto
next
  assume h: "reg16 m 15 = 0 \<and> length (msp_block m) = 16
        \<and> unat (reg16 m 14) + 8 \<le> length (msp_rk m) \<and> unat (reg16 m 14) + 8 < 65536"
  with SART_MSP_cells[of m sbox]
  show "\<exists>m'. exec (SubCells_AddRoundTweakey_ShiftRows_MSP sbox) m = Some m'
        \<and> msp_block m' = ShiftRows (AddRoundTweakey
              (take 8 (drop (unat (reg16 m 14)) (msp_rk m))) (SubCells sbox (cells_MSP m)))
        \<and> reg16 m' 14 = reg16 m 14 + 8
        \<and> msp_rk_reads m' = msp_rk_reads m @ [unat (reg16 m 14) ..< unat (reg16 m 14) + 8]
        \<and> msp_rk m' = msp_rk m"
    by auto
next
  assume h: "regs s R10 = 0xff \<and> regs s R1 = 0 \<and> 320 \<le> length (rk_mem s)"
  show "\<forall>r\<le>40. \<exists>t. repeat_opt r (iteration_ARM sbox) s = Some t \<and> unat (regs t R1) = 8 * r"
  proof (intro allI impI)
    fix r :: nat
    assume r: "r \<le> 40"
    have "\<exists>s'. repeat_opt r (iteration_ARM sbox) s = Some s'
     \<and> cells_ARM s' = skinny_rounds sbox r (drop (unat (regs s R1)) (rk_mem s)) (cells_ARM s)
     \<and> regs s' R0 = regs s R0 \<and> unat (regs s' R1) = unat (regs s R1) + 8 * r
     \<and> regs s' R8 = regs s R8 - of_nat r
     \<and> regs s' R10 = 0xff \<and> block_mem s' = block_mem s \<and> rk_mem s' = rk_mem s
     \<and> rk_reads s' = rk_reads s @ [unat (regs s R1) ..< unat (regs s R1) + 8 * r]"
      by (rule repeat_iteration_ARM) (use h r in simp_all)
    with h show "\<exists>t. repeat_opt r (iteration_ARM sbox) s = Some t \<and> unat (regs t R1) = 8 * r"
      by auto
  qed
qed

theorem C4_AddRoundTweakey_witness:
  "(\<exists>s'. exec AddRoundTweakey_ARM
        \<lparr>regs = (\<lambda>r. 0)(R10 := 0xff), block_mem = [], rk_mem = replicate 320 1, rk_reads = []\<rparr>
          = Some s'
      \<and> cells_ARM s' ! 0 = 1 \<and> cells_ARM s' ! 7 = 1 \<and> cells_ARM s' ! 8 = 2
      \<and> cells_ARM s' ! 9 = 0 \<and> regs s' R1 = 8 \<and> rk_reads s' = [0 ..< 8])
   \<and> (\<exists>v'. exec AddRoundTweakey_AVR
        \<lparr>reg8 = (\<lambda>r. 0)(25 := 0x02), ptrX = 0, ptrZ = 0, avr_block = [],
         avr_rk = replicate 320 1, avr_rk_reads = []\<rparr> = Some v'
      \<and> cells_mid_AVR v' ! 0 = 1 \<and> cells_mid_AVR v' ! 8 = 2 \<and> ptrZ v' = 8)
   \<and> (\<exists>m'. exec (SubCells_AddRoundTweakey_ShiftRows_MSP (\<lambda>x. x))
        \<lparr>reg16 = (\<lambda>r. 0), msp_block = replicate 16 0, msp_rk = replicate 320 1,
         msp_rk_reads = []\<rparr> = Some m'
      \<and> reg16 m' 14 = 8)
   \<and> (\<exists>t. repeat_opt 40 (iteration_ARM (\<lambda>x. x))
        \<lparr>regs = (\<lambda>r. 0)(R10 := 0xff), block_mem = [], rk_mem = replicate 320 1, rk_reads = []\<rparr>
          = Some t
      \<and> unat (regs t R1) = 320)"
proof -
  let ?s = "\<lparr>regs = (\<lambda>r. 0)(R10 := 0xff), block_mem = [], rk_mem = replicate 320 1,
             rk_reads = []\<rparr>"
  let ?v = "\<lparr>reg8 = (\<lambda>r. 0)(25 := 0x02), ptrX = 0, ptrZ = 0, avr_block = [],
         avr_rk = replicate 320 1, avr_rk_reads = []\<rparr>"
  let ?m = "\<lparr>reg16 = (\<lambda>r. 0), msp_block = replicate 16 0, msp_rk = replicate 320 1,
         msp_rk_reads = []\<rparr>"
  note inst = C4_AddRoundTweakey[of ?s ?v ?m "\<lambda>x. x"]
  have cs: "cells_ARM ?s = replicate 16 0"
    by (simp add: cells_ARM_def word_bytes_def byte_of_def numeral_eq_Suc)
  have cv: "cells_mid_AVR ?v = replicate 16 0"
    by (simp add: cells_mid_AVR_def numeral_eq_Suc)
  have "unat (regs ?s R1) + 8 \<le> length (rk_mem ?s)" by simp
  from inst[THEN conjunct1, rule_format, OF this]
  have a: "\<exists>s'. exec AddRoundTweakey_ARM ?s = Some s'
      \<and> cells_ARM s' ! 0 = 1 \<and> cells_ARM s' ! 7 = 1 \<and> cells_ARM s' ! 8 = 2
      \<and> cells_ARM s' ! 9 = 0 \<and> regs s' R1 = 8 \<and> rk_reads s' = [0 ..< 8]"
    unfolding cs all_less_8 all_less_16 upt16 by (auto simp: upt8')
  have "reg8 ?v 25 = 0x02 \<and> unat (ptrZ ?v) + 8 \<le> length (avr_rk ?v) \<and> unat (ptrZ ?v) + 8 < 65536"
    by simp
  from inst[THEN conjunct2, THEN conjunct1, rule_format, OF this]
  have b: "\<exists>v'. exec AddRoundTweakey_AVR ?v = Some v'
      \<and> cells_mid_AVR v' ! 0 = 1 \<and> cells_mid_AVR v' ! 8 = 2 \<and> ptrZ v' = 8"
    unfolding cv all_less_8 all_less_16 upt16 by (auto simp: upt8')
  have "reg16 ?m 15 = 0 \<and> length (msp_block ?m) = 16
        \<and> unat (reg16 ?m 14) + 8 \<le> length (msp_rk ?m) \<and> unat (reg16 ?m 14) + 8 < 65536"
    by simp
  from inst[THEN conjunct2, THEN conjunct2, THEN conjunct1, rule_format, OF this]
  have c: "\<exists>m'. exec (SubCells_AddRoundTweakey_ShiftRows_MSP (\<lambda>x. x)) ?m = Some m'
      \<and> reg16 m' 14 = 8"
    by auto
  have "regs ?s R10 = 0xff \<and> regs ?s R1 = 0 \<and> 320 \<le> length (rk_mem ?s)" by simp
  from inst[THEN conjunct2, THEN conjunct2, THEN conjunct2, rule_format, OF this, of 40]
  have d: "\<exists>t. repeat_opt 40 (iteration_ARM (\<lambda>x. x)) ?s = Some t \<and> unat (regs t R1) = 320"
    by simp
  from a b c d show ?thesis by blast
qed

text \<open>
  C5. The ShiftRows section of the ARM body rotates row \<open>k\<close> of the state right by \<open>k\<close>
  positions: row 0 stays, row 1 \<open>(s4, s5, s6, s7)\<close> becomes \<open>(s7, s4, s5, s6)\<close>, row 2
  \<open>(s8, s9, s10, s11)\<close> becomes \<open>(s10, s11, s8, s9)\<close> and row 3 \<open>(s12, s13, s14, s15)\<close>
  becomes \<open>(s13, s14, s15, s12)\<close>. The AVR body has no instructions of its own for the
  step: its MixColumns section takes the rows, rotated in this way, from the registers
  that hold them after AddRoundTweakey. The MSP body stores the substituted cells to the
  rotated places of the block buffer.
\<close>

theorem C5_ShiftRows:
  "ShiftRows [c0, c1, c2, c3, c4, c5, c6, c7, c8, c9, c10, c11, c12, c13, c14, c15]
      = [c0, c1, c2, c3, c7, c4, c5, c6, c10, c11, c8, c9, c13, c14, c15, c12]
   \<and> (\<exists>s'. exec ShiftRows_ARM s = Some s'
     \<and> cells_ARM s' = ShiftRows (cells_ARM s)
     \<and> (\<forall>k<4. \<forall>j<4. cells_ARM s' ! (4 * k + j) = cells_ARM s ! (4 * k + (j + 4 - k) mod 4))
     \<and> regs s' R0 = regs s R0 \<and> regs s' R1 = regs s R1 \<and> regs s' R8 = regs s R8
     \<and> regs s' R10 = regs s R10 \<and> block_mem s' = block_mem s \<and> rk_mem s' = rk_mem s
     \<and> rk_reads s' = rk_reads s)
   \<and> (\<exists>v'. exec MixColumns_AVR v = Some v'
     \<and> cells_top_AVR v' = MixColumns (ShiftRows (cells_mid_AVR v)))
   \<and> (reg16 m 15 = 0 \<and> length (msp_block m) = 16
        \<and> unat (reg16 m 14) + 8 \<le> length (msp_rk m) \<and> unat (reg16 m 14) + 8 < 65536 \<longrightarrow>
      (\<exists>m'. exec (SubCells_AddRoundTweakey_ShiftRows_MSP sbox) m = Some m'
        \<and> msp_block m' = ShiftRows (AddRoundTweakey
              (take 8 (drop (unat (reg16 m 14)) (msp_rk m))) (SubCells sbox (cells_MSP m)))))"
proof (intro conjI impI)
  show "ShiftRows [c0, c1, c2, c3, c4, c5, c6, c7, c8, c9, c10, c11, c12, c13, c14, c15]
      = [c0, c1, c2, c3, c7, c4, c5, c6, c10, c11, c8, c9, c13, c14, c15, c12]"
    by (simp add: ShiftRows_def)
next
  from ShiftRows_ARM_cells[of s] obtain s' where s': "exec ShiftRows_ARM s = Some s'"
     "cells_ARM s' = ShiftRows (cells_ARM s)"
     "regs s' R0 = regs s R0" "regs s' R1 = regs s R1" "regs s' R8 = regs s R8"
     "regs s' R10 = regs s R10" "block_mem s' = block_mem s" "rk_mem s' = rk_mem s"
     "rk_reads s' = rk_reads s"
    by blast
  then show "\<exists>s'. exec ShiftRows_ARM s = Some s'
     \<and> cells_ARM s' = ShiftRows (cells_ARM s)
     \<and> (\<forall>k<4. \<forall>j<4. cells_ARM s' ! (4 * k + j) = cells_ARM s ! (4 * k + (j + 4 - k) mod 4))
     \<and> regs s' R0 = regs s R0 \<and> regs s' R1 = regs s R1 \<and> regs s' R8 = regs s R8
     \<and> regs s' R10 = regs s R10 \<and> block_mem s' = block_mem s \<and> rk_mem s' = rk_mem s
     \<and> rk_reads s' = rk_reads s"
    using ShiftRows_nth[of "cells_ARM s"] by simp
next
  from MixColumns_AVR_cells[of v]
  show "\<exists>v'. exec MixColumns_AVR v = Some v'
     \<and> cells_top_AVR v' = MixColumns (ShiftRows (cells_mid_AVR v))"
    by blast
next
  assume "reg16 m 15 = 0 \<and> length (msp_block m) = 16
        \<and> unat (reg16 m 14) + 8 \<le> length (msp_rk m) \<and> unat (reg16 m 14) + 8 < 65536"
  with SART_MSP_cells[of m sbox]
  show "\<exists>m'. exec (SubCells_AddRoundTweakey_ShiftRows_MSP sbox) m = Some m'
        \<and> msp_block m' = ShiftRows (AddRoundTweakey
              (take 8 (drop (unat (reg16 m 14)) (msp_rk m))) (SubCells sbox (cells_MSP m)))"
    by auto
qed

theorem C5_ShiftRows_witness:
  "(\<exists>s'. exec ShiftRows_ARM
        \<lparr>regs = (\<lambda>r. 0)(R3 := le32 4 5 6 7, R4 := le32 8 9 10 11, R5 := le32 12 13 14 15),
         block_mem = [], rk_mem = [], rk_reads = []\<rparr> = Some s'
      \<and> cells_ARM s' = [0, 0, 0, 0, 7, 4, 5, 6, 10, 11, 8, 9, 13, 14, 15, 12])
   \<and> (\<exists>m'. exec (SubCells_AddRoundTweakey_ShiftRows_MSP (\<lambda>x. x))
        \<lparr>reg16 = (\<lambda>r. 0)(6 := le16 4 5, 7 := le16 6 7), msp_block = replicate 16 0,
         msp_rk = replicate 8 0, msp_rk_reads = []\<rparr> = Some m'
      \<and> msp_block m' = [0, 0, 0, 0, 7, 4, 5, 6, 0, 0, 2, 0, 0, 0, 0, 0])"
proof -
  let ?s = "\<lparr>regs = (\<lambda>r. 0)(R3 := le32 4 5 6 7, R4 := le32 8 9 10 11, R5 := le32 12 13 14 15),
         block_mem = [], rk_mem = [], rk_reads = []\<rparr>"
  let ?m = "\<lparr>reg16 = (\<lambda>r. 0)(6 := le16 4 5, 7 := le16 6 7), msp_block = replicate 16 0,
         msp_rk = replicate 8 0, msp_rk_reads = []\<rparr>"
  note inst = C5_ShiftRows[of _ _ _ _ _ _ _ _ _ _ _ _ _ _ _ _ ?s _ ?m "\<lambda>x. x"]
  have z: "byte_of 0 0 = 0" "byte_of (Suc 0) 0 = 0" "byte_of 2 0 = 0" "byte_of 3 0 = 0"
    "lo8 0 = 0" "hi8 0 = 0"
    by (simp_all add: byte_of_def lo8_def hi8_def)
  have cs: "cells_ARM ?s = [0, 0, 0, 0, 4, 5, 6, 7, 8, 9, 10, 11, 12, 13, 14, 15]"
    by (simp add: cells_ARM_def word_bytes_def byte_of_le32 z)
  have cm: "cells_MSP ?m = [0, 0, 0, 0, 4, 5, 6, 7, 0, 0, 0, 0, 0, 0, 0, 0]"
    by (simp add: cells_MSP_def le16_simps z)
  from inst[THEN conjunct2, THEN conjunct1] cs
  have a: "\<exists>s'. exec ShiftRows_ARM ?s = Some s'
      \<and> cells_ARM s' = [0, 0, 0, 0, 7, 4, 5, 6, 10, 11, 8, 9, 13, 14, 15, 12]"
    by (auto simp: ShiftRows_def)
  have "reg16 ?m 15 = 0 \<and> length (msp_block ?m) = 16
        \<and> unat (reg16 ?m 14) + 8 \<le> length (msp_rk ?m) \<and> unat (reg16 ?m 14) + 8 < 65536"
    by simp
  from inst[THEN conjunct2, THEN conjunct2, THEN conjunct2, rule_format, OF this] cm
  have b: "\<exists>m'. exec (SubCells_AddRoundTweakey_ShiftRows_MSP (\<lambda>x. x)) ?m = Some m'
      \<and> msp_block m' = [0, 0, 0, 0, 7, 4, 5, 6, 0, 0, 2, 0, 0, 0, 0, 0]"
    by (auto simp: ShiftRows_def AddRoundTweakey_def SubCells_def)
  from a b show ?thesis by blast
qed

text \<open>
  C6. The SubCells section of the ARM body replaces each of the 16 cells \<open>s_i\<close> by
  \<open>sbox s_i\<close>, and so does the SubCells section of the AVR body (which also brings the
  registers back to the order \<open>s0 .. s15\<close>). No cell escapes. The substitutions are
  independent: substituting the 16 cells one at a time in any order gives the same state.
\<close>

theorem C6_SubCells:
  "(regs s R10 = 0xff \<longrightarrow>
      (\<exists>s'. exec (SubCells_ARM sbox) s = Some s'
        \<and> cells_ARM s' = map sbox (cells_ARM s) \<and> length (cells_ARM s') = 16
        \<and> regs s' R0 = regs s R0 \<and> regs s' R1 = regs s R1 \<and> regs s' R8 = regs s R8
        \<and> regs s' R10 = regs s R10 \<and> block_mem s' = block_mem s \<and> rk_mem s' = rk_mem s
        \<and> rk_reads s' = rk_reads s))
   \<and> (\<exists>v'. exec (SubCells_AVR sbox) v = Some v'
        \<and> cells_mid_AVR v' = map sbox (cells_top_AVR v) \<and> length (cells_mid_AVR v') = 16
        \<and> ptrX v' = ptrX v \<and> ptrZ v' = ptrZ v \<and> reg8 v' 24 = reg8 v 24
        \<and> reg8 v' 25 = reg8 v 25 \<and> avr_block v' = avr_block v \<and> avr_rk v' = avr_rk v
        \<and> avr_rk_reads v' = avr_rk_reads v)
   \<and> (length st = 16 \<and> distinct is \<and> set is = {0..<16} \<longrightarrow>
        fold (sub_cell sbox) is st = map sbox st)"
proof (intro conjI impI)
  assume "regs s R10 = 0xff"
  from SubCells_ARM_cells[OF this, of sbox]
  show "\<exists>s'. exec (SubCells_ARM sbox) s = Some s'
        \<and> cells_ARM s' = map sbox (cells_ARM s) \<and> length (cells_ARM s') = 16
        \<and> regs s' R0 = regs s R0 \<and> regs s' R1 = regs s R1 \<and> regs s' R8 = regs s R8
        \<and> regs s' R10 = regs s R10 \<and> block_mem s' = block_mem s \<and> rk_mem s' = rk_mem s
        \<and> rk_reads s' = rk_reads s"
    by (auto simp: SubCells_def cells_ARM_def word_bytes_def)
next
  from SubCells_AVR_cells[of sbox v]
  show "\<exists>v'. exec (SubCells_AVR sbox) v = Some v'
        \<and> cells_mid_AVR v' = map sbox (cells_top_AVR v) \<and> length (cells_mid_AVR v') = 16
        \<and> ptrX v' = ptrX v \<and> ptrZ v' = ptrZ v \<and> reg8 v' 24 = reg8 v 24
        \<and> reg8 v' 25 = reg8 v 25 \<and> avr_block v' = avr_block v \<and> avr_rk v' = avr_rk v
        \<and> avr_rk_reads v' = avr_rk_reads v"
    by (auto simp: SubCells_def cells_mid_AVR_def)
next
  assume "length st = 16 \<and> distinct is \<and> set is = {0..<16}"
  then show "fold (sub_cell sbox) is st = map sbox st"
    by (intro fold_sub_cell_all) simp_all
qed

theorem C6_SubCells_witness:
  "(\<exists>s'. exec (SubCells_ARM (\<lambda>x. x + 1))
        \<lparr>regs = (\<lambda>r. 0)(R10 := 0xff), block_mem = [], rk_mem = [], rk_reads = []\<rparr> = Some s'
      \<and> cells_ARM s' = replicate 16 1)
   \<and> fold (sub_cell (\<lambda>x. x + 1)) [15, 0, 14, 1, 13, 2, 12, 3, 11, 4, 10, 5, 9, 6, 8, 7]
        (replicate 16 0) = replicate 16 1"
proof -
  let ?s = "\<lparr>regs = (\<lambda>r. 0)(R10 := 0xff), block_mem = [], rk_mem = [], rk_reads = []\<rparr>"
  let ?is = "[15, 0, 14, 1, 13, 2, 12, 3, 11, 4, 10, 5, 9, 6, 8, 7] :: nat list"
  note inst = C6_SubCells[of ?s "\<lambda>x. x + 1" _ "replicate 16 0" ?is]
  have cs: "cells_ARM ?s = replicate 16 0"
    by (simp add: cells_ARM_def word_bytes_def byte_of_def numeral_eq_Suc)
  have "regs ?s R10 = 0xff" by simp
  from inst[THEN conjunct1, rule_format, OF this]
  have a: "\<exists>s'. exec (SubCells_ARM (\<lambda>x. x + 1)) ?s = Some s' \<and> cells_ARM s' = replicate 16 1"
    unfolding cs by auto
  have "set ?is = set [0..<16]" unfolding upt16 by auto
  then have "length (replicate 16 (0::byte)) = 16 \<and> distinct ?is \<and> set ?is = {0..<16}"
    by simp
  from inst[THEN conjunct2, THEN conjunct2, rule_format, OF this]
  have b: "fold (sub_cell (\<lambda>x. x + 1)) ?is (replicate 16 0) = replicate 16 1"
    by simp
  from a b show ?thesis by blast
qed

text \<open>
  C7. The loop of the ARM body makes exactly 40 passes: it is entered with the counter 40,
  the counter is not zero after fewer than 40 passes and is zero after 40. After \<open>r\<close> passes
  the cursor into the round keys has advanced by \<open>8r\<close> bytes and the bytes read so far are
  those at the offsets \<open>0 .. 8r-1\<close>. Over the whole call the bytes of the round keys that
  are read are those at the offsets \<open>0 .. 319\<close>, each once and in this order, in all three
  bodies.
\<close>

theorem C7_forty_rounds_and_cursor:
  assumes "length block = 16" "320 \<le> length roundKeys"
  shows "\<exists>s1 s' v' m'.
       exec load_ARM (arm_entry rs block roundKeys) = Some s1
     \<and> regs s1 R8 = 40
     \<and> enc_loop_ARM sbox s1 = repeat_opt 40 (iteration_ARM sbox) s1
     \<and> (\<forall>r\<le>40. \<exists>t. repeat_opt r (iteration_ARM sbox) s1 = Some t
            \<and> unat (regs t R1) = 8 * r \<and> rk_reads t = [0 ..< 8 * r]
            \<and> (regs t R8 = 0 \<longleftrightarrow> r = 40))
     \<and> Encrypt_ARM sbox (arm_entry rs block roundKeys) = Some s'
     \<and> rk_reads s' = [0 ..< 320]
     \<and> Encrypt_AVR sbox (avr_entry rv block roundKeys) = Some v'
     \<and> avr_rk_reads v' = [0 ..< 320]
     \<and> Encrypt_MSP sbox (msp_entry rm block roundKeys) = Some m'
     \<and> msp_rk_reads m' = [0 ..< 320]"
proof -
  from entry_ARM[OF assms(1), of rs roundKeys] obtain s1 where
    s1: "exec load_ARM (arm_entry rs block roundKeys) = Some s1"
      "cells_ARM s1 = block" "regs s1 R0 = 0" "regs s1 R1 = 0" "regs s1 R8 = 40"
      "regs s1 R10 = 0xff" "block_mem s1 = block" "rk_mem s1 = roundKeys" "rk_reads s1 = []"
    by blast
  have loop: "enc_loop_ARM sbox s1 = repeat_opt 40 (iteration_ARM sbox) s1"
    by (rule enc_loop_ARM_repeat) (simp_all add: s1)
  have passes: "\<forall>r\<le>40. \<exists>t. repeat_opt r (iteration_ARM sbox) s1 = Some t
            \<and> unat (regs t R1) = 8 * r \<and> rk_reads t = [0 ..< 8 * r]
            \<and> (regs t R8 = 0 \<longleftrightarrow> r = 40)"
  proof (intro allI impI)
    fix r :: nat
    assume r: "r \<le> 40"
    have "\<exists>s'. repeat_opt r (iteration_ARM sbox) s1 = Some s'
     \<and> cells_ARM s' = skinny_rounds sbox r (drop (unat (regs s1 R1)) (rk_mem s1)) (cells_ARM s1)
     \<and> regs s' R0 = regs s1 R0 \<and> unat (regs s' R1) = unat (regs s1 R1) + 8 * r
     \<and> regs s' R8 = regs s1 R8 - of_nat r
     \<and> regs s' R10 = 0xff \<and> block_mem s' = block_mem s1 \<and> rk_mem s' = rk_mem s1
     \<and> rk_reads s' = rk_reads s1 @ [unat (regs s1 R1) ..< unat (regs s1 R1) + 8 * r]"
      by (rule repeat_iteration_ARM) (use assms s1 r in simp_all)
    then show "\<exists>t. repeat_opt r (iteration_ARM sbox) s1 = Some t
            \<and> unat (regs t R1) = 8 * r \<and> rk_reads t = [0 ..< 8 * r]
            \<and> (regs t R8 = 0 \<longleftrightarrow> r = 40)"
      using s1 counter_ARM[OF r] by auto
  qed
  from Encrypt_ARM_run[OF assms, of sbox rs] obtain s' where
    s': "Encrypt_ARM sbox (arm_entry rs block roundKeys) = Some s'" "rk_reads s' = [0 ..< 320]"
    by blast
  from Encrypt_AVR_run[OF assms, of sbox rv] obtain v' where
    v': "Encrypt_AVR sbox (avr_entry rv block roundKeys) = Some v'" "avr_rk_reads v' = [0 ..< 320]"
    by blast
  from Encrypt_MSP_run[OF assms, of sbox rm] obtain m' where
    m': "Encrypt_MSP sbox (msp_entry rm block roundKeys) = Some m'" "msp_rk_reads m' = [0 ..< 320]"
    by blast
  from s1(1,5) loop passes s' v' m' show ?thesis by blast
qed

theorem C7_forty_rounds_and_cursor_witness:
  "\<forall>sbox rs rv rm. \<exists>s1 s' v' m'.
       exec load_ARM (arm_entry rs (replicate 16 0) (replicate 320 0)) = Some s1
     \<and> regs s1 R8 = 40
     \<and> enc_loop_ARM sbox s1 = repeat_opt 40 (iteration_ARM sbox) s1
     \<and> (\<forall>r\<le>40. \<exists>t. repeat_opt r (iteration_ARM sbox) s1 = Some t
            \<and> unat (regs t R1) = 8 * r \<and> rk_reads t = [0 ..< 8 * r]
            \<and> (regs t R8 = 0 \<longleftrightarrow> r = 40))
     \<and> Encrypt_ARM sbox (arm_entry rs (replicate 16 0) (replicate 320 0)) = Some s'
     \<and> rk_reads s' = [0 ..< 320]
     \<and> Encrypt_AVR sbox (avr_entry rv (replicate 16 0) (replicate 320 0)) = Some v'
     \<and> avr_rk_reads v' = [0 ..< 320]
     \<and> Encrypt_MSP sbox (msp_entry rm (replicate 16 0) (replicate 320 0)) = Some m'
     \<and> msp_rk_reads m' = [0 ..< 320]"
  using C7_forty_rounds_and_cursor[of "replicate 16 0" "replicate 320 0"] by simp

text \<open>
  C8. MixColumns acts on the four columns independently: if two states differ only in the
  cells of column \<open>j\<close>, then their images under the MixColumns section of the ARM body
  differ only in the cells of column \<open>j\<close>.
\<close>

theorem C8_MixColumns_column_independence:
  assumes "j < 4" "\<forall>i<16. i mod 4 \<noteq> j \<longrightarrow> cells_ARM s ! i = cells_ARM t ! i"
  shows "\<exists>s' t'. exec MixColumns_ARM s = Some s' \<and> exec MixColumns_ARM t = Some t'
     \<and> (\<forall>i<16. i mod 4 \<noteq> j \<longrightarrow> cells_ARM s' ! i = cells_ARM t' ! i)"
proof -
  from MixColumns_ARM_cells[of s] obtain s' where
    s': "exec MixColumns_ARM s = Some s'" "cells_ARM s' = MixColumns (cells_ARM s)" by blast
  from MixColumns_ARM_cells[of t] obtain t' where
    t': "exec MixColumns_ARM t = Some t'" "cells_ARM t' = MixColumns (cells_ARM t)" by blast
  have len: "length (cells_ARM s) = 16" "length (cells_ARM t) = 16"
    by (simp_all add: cells_ARM_def word_bytes_def)
  from MixColumns_columns[OF len assms] s' t' show ?thesis by simp
qed

theorem C8_MixColumns_column_independence_witness:
  "\<exists>s' t'. exec MixColumns_ARM
        \<lparr>regs = (\<lambda>r. 0), block_mem = [], rk_mem = [], rk_reads = []\<rparr> = Some s'
     \<and> exec MixColumns_ARM
        \<lparr>regs = (\<lambda>r. 0)(R2 := le32 0 1 0 0, R3 := le32 0 2 0 0, R4 := le32 0 3 0 0,
           R5 := le32 0 4 0 0), block_mem = [], rk_mem = [], rk_reads = []\<rparr> = Some t'
     \<and> (\<forall>i<16. i mod 4 \<noteq> 1 \<longrightarrow> cells_ARM s' ! i = cells_ARM t' ! i)"
proof -
  let ?s = "\<lparr>regs = (\<lambda>r. 0), block_mem = [], rk_mem = [], rk_reads = []\<rparr>"
  let ?t = "\<lparr>regs = (\<lambda>r. 0)(R2 := le32 0 1 0 0, R3 := le32 0 2 0 0, R4 := le32 0 3 0 0,
           R5 := le32 0 4 0 0), block_mem = [], rk_mem = [], rk_reads = []\<rparr>"
  have z: "byte_of 0 0 = 0" "byte_of (Suc 0) 0 = 0" "byte_of 2 0 = 0" "byte_of 3 0 = 0"
    by (simp_all add: byte_of_def)
  have "\<forall>i<16. i mod 4 \<noteq> 1 \<longrightarrow> cells_ARM ?s ! i = cells_ARM ?t ! i"
    unfolding all_less_16 upt16
    by (simp add: cells_ARM_def word_bytes_def byte_of_le32 z)
  from C8_MixColumns_column_independence[OF _ this] show ?thesis by simp
qed

text \<open>
  C9. For every 16-byte block and every round-key buffer of at least 320 bytes, each of the
  three bodies returns with the round-key buffer holding the bytes it held before the call;
  the only buffer written is the block buffer, which still has 16 bytes. The S-box table
  is a parameter of the bodies and is not part of the state they change.
\<close>

theorem C9_roundKeys_unchanged:
  assumes "length block = 16" "320 \<le> length roundKeys"
  shows "\<exists>a v m. Encrypt_ARM sbox (arm_entry ra block roundKeys) = Some a
     \<and> rk_mem a = roundKeys \<and> length (block_mem a) = 16
     \<and> Encrypt_AVR sbox (avr_entry rv block roundKeys) = Some v
     \<and> avr_rk v = roundKeys \<and> length (avr_block v) = 16
     \<and> Encrypt_MSP sbox (msp_entry rm block roundKeys) = Some m
     \<and> msp_rk m = roundKeys \<and> length (msp_block m) = 16"
proof -
  have len: "length (skinny_encrypt sbox block roundKeys) = 16"
    using assms(1) by (simp add: skinny_encrypt_def length_skinny_rounds)
  from Encrypt_ARM_run[OF assms, of sbox ra] obtain a where
    a: "Encrypt_ARM sbox (arm_entry ra block roundKeys) = Some a"
       "block_mem a = skinny_encrypt sbox block roundKeys" "rk_mem a = roundKeys" by blast
  from Encrypt_AVR_run[OF assms, of sbox rv] obtain v where
    v: "Encrypt_AVR sbox (avr_entry rv block roundKeys) = Some v"
       "avr_block v = skinny_encrypt sbox block roundKeys" "avr_rk v = roundKeys" by blast
  from Encrypt_MSP_run[OF assms, of sbox rm] obtain m where
    m: "Encrypt_MSP sbox (msp_entry rm block roundKeys) = Some m"
       "msp_block m = skinny_encrypt sbox block roundKeys" "msp_rk m = roundKeys" by blast
  from a v m len show ?thesis by simp
qed

theorem C9_roundKeys_unchanged_witness:
  "\<forall>sbox ra rv rm. \<exists>a v m.
       Encrypt_ARM sbox (arm_entry ra (replicate 16 7) (replicate 320 9)) = Some a
     \<and> rk_mem a = replicate 320 9 \<and> length (block_mem a) = 16
     \<and> Encrypt_AVR sbox (avr_entry rv (replicate 16 7) (replicate 320 9)) = Some v
     \<and> avr_rk v = replicate 320 9 \<and> length (avr_block v) = 16
     \<and> Encrypt_MSP sbox (msp_entry rm (replicate 16 7) (replicate 320 9)) = Some m
     \<and> msp_rk m = replicate 320 9 \<and> length (msp_block m) = 16"
  using C9_roundKeys_unchanged[of "replicate 16 7" "replicate 320 9"] by simp

text \<open>
  C10. With none of the macros \<^verbatim>\<open>AVR\<close>, \<^verbatim>\<open>MSP\<close>, \<^verbatim>\<open>ARM\<close> defined, \<^verbatim>\<open>Encrypt\<close> has the empty
  body: it returns and leaves the block buffer and the round-key buffer as they were,
  whatever they hold and whatever their lengths.
\<close>

theorem C10_generic_is_identity:
  assumes "\<not> avr_defined" "\<not> msp_defined" "\<not> arm_defined"
  shows "Encrypt (selected_body avr_defined msp_defined arm_defined) sbox b = Some b"
  using assms by (simp add: selected_body_def Encrypt_def Encrypt_generic_def)

theorem C10_generic_is_identity_witness:
  "Encrypt (selected_body False False False) (\<lambda>x. x + 1)
      \<lparr>block_buf = [1, 2, 3], roundKeys_buf = []\<rparr>
     = Some \<lparr>block_buf = [1, 2, 3], roundKeys_buf = []\<rparr>"
  using C10_generic_is_identity[of False False False] by simp

end
